theory Spec2Isabelle
  imports Main "HOL-Library.Sublist" "HOL-Library.Word"
begin

section \<open>Exceptions\<close>

text \<open>
  The exceptions that the functions of \<^verbatim>\<open>lib/project/connection.py\<close>,
  \<^verbatim>\<open>lib/project/utility.py\<close> and \<^verbatim>\<open>main.py\<close> raise, catch or let pass.
  \<open>WLANConnectionError\<close> is the class declared in connection.py; the others are Python's own.
  \<open>Unmodelled\<close> is no exception: it is the answer of the model where it does not follow
  the interpreter (a secrets file outside the fragment of Python described below, a name
  that the module object itself defines). Nothing is concluded about the program from it.
\<close>

datatype py_exc =
    WLANConnectionError
  | StopIteration
  | ImportError
  | SyntaxError
  | NameError
  | TypeError
  | OSError
  | UnicodeError
  | Unmodelled

section \<open>The secrets file (utility.py)\<close>

text \<open>
  \<^verbatim>\<open>env/secrets.py\<close> is a text file, \<open>None\<close> while it does not exist. The compiled
  \<^verbatim>\<open>secrets.mpy\<close> that \<open>create_secrets\<close> also looks for is taken to be absent.
  A secret's value is Python's \<open>None\<close> or a \<open>str\<close>: \<open>string option\<close>.
\<close>

type_synonym secrets_file = "string option"

definition newline :: char where
  "newline = CHR 0x0A"

definition quote :: char where
  "quote = CHR 0x27"

text \<open>\<^verbatim>\<open>file.readlines()\<close>: every line keeps its terminating newline; the last one may lack it.\<close>

fun readlines :: "string \<Rightarrow> string list" where
  "readlines [] = []"
| "readlines (c # cs) =
     (if c = newline then [c] # readlines cs
      else (case readlines cs of [] \<Rightarrow> [[c]] | l # ls \<Rightarrow> (c # l) # ls))"

text \<open>
  \<^verbatim>\<open>create_secrets()\<close>: writes the six unset keys when the file is missing and leaves an
  existing file alone. The result is the content of env/secrets.py after the call.
\<close>

definition baseline :: string where
  "baseline =
     ''AP_SSID = None\<newline>'' @
     ''AP_PASSWORD = None\<newline>'' @
     ''WLAN_SSID = None\<newline>'' @
     ''WLAN_PASSWORD = None\<newline>'' @
     ''MQTT_ENDPOINT = None\<newline>'' @
     ''MQTT_CLIENT_ID = None\<newline>''"

definition create_secrets :: "secrets_file \<Rightarrow> string" where
  "create_secrets f = (case f of None \<Rightarrow> baseline | Some c \<Rightarrow> c)"

subsection \<open>Importing the file\<close>

text \<open>
  \<^verbatim>\<open>exec("import env.secrets", {})\<close> runs the file as a Python module. The fragment
  of Python modelled here is the one \<open>create_secrets\<close> and \<open>dynamic_set_secret\<close> write: one
  assignment per line, \<^verbatim>\<open>NAME = None\<close> or \<^verbatim>\<open>NAME = '...'\<close>, the name an identifier that
  starts with a letter and is no keyword, the literal made of printable ASCII characters
  other than the quote and the backslash, the line closed by a newline. Python accepts
  much more (double quotes, escapes, adjacent literals, comments, a last line without
  newline): on the first line outside the fragment the model answers \<open>SyntaxError\<close> where
  that is certain, and \<open>Unmodelled\<close> otherwise.
\<close>

definition ident_start :: "char \<Rightarrow> bool" where
  "ident_start c \<longleftrightarrow>
     c \<in> set ''ABCDEFGHIJKLMNOPQRSTUVWXYZabcdefghijklmnopqrstuvwxyz''"

definition ident_char :: "char \<Rightarrow> bool" where
  "ident_char c \<longleftrightarrow> ident_start c \<or> c \<in> set ''0123456789_''"

definition py_keywords :: "string list" where
  "py_keywords =
     [''False'', ''None'', ''True'', ''and'', ''as'', ''assert'', ''async'', ''await'',
      ''break'', ''class'', ''continue'', ''def'', ''del'', ''elif'', ''else'', ''except'',
      ''finally'', ''for'', ''from'', ''global'', ''if'', ''import'', ''in'', ''is'',
      ''lambda'', ''nonlocal'', ''not'', ''or'', ''pass'', ''raise'', ''return'', ''try'',
      ''while'', ''with'', ''yield'']"

definition is_identifier :: "string \<Rightarrow> bool" where
  "is_identifier n \<longleftrightarrow>
     (case n of [] \<Rightarrow> False | c # _ \<Rightarrow> ident_start c) \<and> list_all ident_char n \<and>
     n \<notin> set py_keywords"

definition lit_char :: "char \<Rightarrow> bool" where
  "lit_char c \<longleftrightarrow>
     32 \<le> (of_char c :: nat) \<and> (of_char c :: nat) < 127 \<and> c \<noteq> quote \<and> c \<noteq> CHR 0x5C"

text \<open>The right-hand side of an assignment, without its newline.\<close>

definition parse_value :: "string \<Rightarrow> string option option" where
  "parse_value r =
     (if r = ''None'' then Some None
      else (case r of
              [] \<Rightarrow> None
            | q # body \<Rightarrow>
                if q = quote \<and> body \<noteq> [] \<and> last body = quote \<and> list_all lit_char (butlast body)
                then Some (Some (butlast body)) else None))"

definition parse_line :: "string \<Rightarrow> (string \<times> string option) option" where
  "parse_line l =
     (let n = takeWhile ident_char l; r = dropWhile ident_char l
      in if is_identifier n \<and> take 3 r = '' = '' \<and> last r = newline
         then map_option (Pair n) (parse_value (butlast (drop 3 r)))
         else None)"

text \<open>
  A line that is certainly a syntax error after lines of the fragment: \<^verbatim>\<open>NAME = 'a'b'\<close>,
  where \<open>a\<close> and \<open>b\<close> hold no quote, no backslash and no character outside printable
  ASCII, \<open>b\<close> holds no double quote and no \<^verbatim>\<open>#\<close>, and \<open>a\<close> and \<open>b\<close> are not both empty.
  The literal \<^verbatim>\<open>'a'\<close> ends at the second quote; whatever the tokens of \<open>b\<close> are, the
  third quote then opens a string literal that the end of the line leaves unterminated.
  This is the line that the quoted format writes for a value with one quote inside.
\<close>

definition code_char :: "char \<Rightarrow> bool" where
  "code_char c \<longleftrightarrow> lit_char c \<and> c \<noteq> CHR 0x22 \<and> c \<noteq> CHR 0x23"

definition unterminated :: "string \<Rightarrow> bool" where
  "unterminated l =
     (let n = takeWhile ident_char l;
          r = dropWhile ident_char l;
          rest = drop 4 r;
          a = takeWhile (\<lambda>c. c \<noteq> quote) rest;
          t = dropWhile (\<lambda>c. c \<noteq> quote) rest;
          b = takeWhile (\<lambda>c. c \<noteq> quote) (drop 1 t);
          u = dropWhile (\<lambda>c. c \<noteq> quote) (drop 1 t)
      in is_identifier n \<and> take 4 r = '' = '' @ [quote] \<and> t \<noteq> [] \<and> u = [quote, newline] \<and>
         list_all lit_char a \<and> list_all code_char b \<and> (a \<noteq> [] \<or> b \<noteq> []))"

text \<open>Running the module: the assignments update the module's namespace in order.\<close>

fun exec_lines ::
  "string list \<Rightarrow> (string \<rightharpoonup> string option) \<Rightarrow> py_exc + (string \<rightharpoonup> string option)" where
  "exec_lines [] m = Inr m"
| "exec_lines (l # ls) m =
     (case parse_line l of
        None \<Rightarrow> Inl (if unterminated l then SyntaxError else Unmodelled)
      | Some (n, v) \<Rightarrow> exec_lines ls (m(n \<mapsto> v)))"

definition import_secrets :: "secrets_file \<Rightarrow> py_exc + (string \<rightharpoonup> string option)" where
  "import_secrets f =
     (case f of
        None \<Rightarrow> Inl ImportError
      | Some c \<Rightarrow> exec_lines (readlines c) Map.empty)"

text \<open>
  \<^verbatim>\<open>dynamic_get_secret(name)\<close>: \<^verbatim>\<open>getattr(module, name, None)\<close>, and the empty string read
  as \<open>None\<close>. The file is not changed. Besides the names that the file assigns, the
  module object has attributes of its own (\<^verbatim>\<open>__name__\<close>, \<^verbatim>\<open>__file__\<close> and others, which
  differ between interpreters); all of them start with two underscores, and for such a
  name the model gives no answer.
\<close>

definition reserved_name :: "string \<Rightarrow> bool" where
  "reserved_name name \<longleftrightarrow> take 2 name = ''__''"

definition dynamic_get_secret :: "string \<Rightarrow> secrets_file \<Rightarrow> py_exc + string option" where
  "dynamic_get_secret name f =
     (case import_secrets f of
        Inl e \<Rightarrow> Inl e
      | Inr m \<Rightarrow>
          if reserved_name name then Inl Unmodelled
          else
          (let secret = (case m name of None \<Rightarrow> None | Some v \<Rightarrow> v)
           in Inr (if secret = Some [] then None else secret)))"

subsection \<open>Writing a secret\<close>

text \<open>
  \<^verbatim>\<open>"{} = {}\n".format(name, value)\<close> for \<open>None\<close> and \<^verbatim>\<open>"{} = '{}'\n".format(name, value)\<close>
  for a string: the line that replaces every line in which \<open>name\<close> occurs.
\<close>

definition secret_line :: "string \<Rightarrow> string option \<Rightarrow> string" where
  "secret_line name value =
     (case value of
        None \<Rightarrow> name @ '' = None'' @ [newline]
      | Some v \<Rightarrow> name @ '' = '' @ [quote] @ v @ [quote, newline])"

text \<open>
  The line appended when \<open>name\<close> occurs in no line: always the quoted format, so that
  \<open>None\<close> is written as the string \<^verbatim>\<open>'None'\<close>.
\<close>

definition appended_line :: "string \<Rightarrow> string option \<Rightarrow> string" where
  "appended_line name value =
     name @ '' = '' @ [quote] @ (case value of None \<Rightarrow> ''None'' | Some v \<Rightarrow> v) @ [quote, newline]"

text \<open>
  \<^verbatim>\<open>dynamic_set_secret(name, value)\<close>: the returned flag and the file afterwards.
  \<^verbatim>\<open>name not in secret_lines[i]\<close> is Python's substring test.
\<close>

definition dynamic_set_secret :: "string \<Rightarrow> string option \<Rightarrow> secrets_file \<Rightarrow> bool \<times> secrets_file" where
  "dynamic_set_secret name value0 f =
     (let value = (if value0 = Some [] then None else value0);
          secret_lines = readlines (create_secrets f);
          name_found = list_ex (sublist name) secret_lines;
          replaced = map (\<lambda>l. if sublist name l then secret_line name value else l) secret_lines;
          written = (if name_found then replaced else replaced @ [appended_line name value])
      in (value \<noteq> None, Some (concat written)))"

section \<open>The radio (network.WLAN, machine, time)\<close>

text \<open>
  \<^verbatim>\<open>network.STA_IF\<close>, \<^verbatim>\<open>network.AP_IF\<close> and \<^verbatim>\<open>network.STAT_GOT_IP\<close>, with the values
  the docstring of \<open>get_network_interface\<close> lists.
\<close>

definition STA_IF :: int where
  "STA_IF = 0"

definition AP_IF :: int where
  "AP_IF = 1"

definition STAT_GOT_IP :: int where
  "STAT_GOT_IP = 3"

text \<open>A \<^verbatim>\<open>network.WLAN\<close> object: its interface and what \<^verbatim>\<open>config\<close> last set.\<close>

record wlan =
  if_mode :: int
  cfg_ssid :: "string option"
  cfg_password :: "string option"

text \<open>
  The calls made on the radio, and \<^verbatim>\<open>sleep(1)\<close>. Every call is logged with the interface
  of the object it is made on.
\<close>

datatype radio_call =
    New
  | Config "string option" "string option"
  | SetActive bool
  | Status
  | Active
  | IsConnected
  | Scan
  | Connect string "string option"
  | Disconnect
  | Deinit
  | Sleep

datatype radio_error = RadioTypeError | RadioOSError

text \<open>
  What the radio answers is not decided by the program. \<open>radio w k\<close> holds the answers
  to the call made when \<open>k\<close> calls have been logged; each call reads the field that belongs
  to it. Any run of the program against any hardware is one such function.
  \<open>r_scan\<close> lists the SSID (first component) of every tuple \<^verbatim>\<open>WLAN.scan()\<close> returns.
  An SSID is a \<^verbatim>\<open>bytes\<close> object, up to 32 arbitrary bytes chosen by whoever runs the
  network: \<open>Decodable s\<close> stands for the bytes that \<^verbatim>\<open>decode()\<close> turns into the string
  \<open>s\<close> (\<open>Decodable []\<close> is the empty SSID of a hidden network), \<open>Undecodable\<close> for bytes
  that are no valid UTF-8, on which \<^verbatim>\<open>decode()\<close> raises \<open>UnicodeError\<close>.
\<close>

datatype ssid_bytes = Decodable string | Undecodable

record reading =
  r_status :: int
  r_active :: bool
  r_isconnected :: bool
  r_scan :: "radio_error + ssid_bytes list"
  r_connect :: "radio_error option"

record world =
  secrets_py :: secrets_file
  radio_log :: "(int \<times> radio_call) list"
  radio :: "nat \<Rightarrow> reading"
  unique_id :: "8 word list"

type_synonym 'a result = "py_exc \<times> world + 'a \<times> world"

definition now :: "world \<Rightarrow> reading" where
  "now w = radio w (length (radio_log w))"

definition call :: "wlan \<Rightarrow> radio_call \<Rightarrow> world \<Rightarrow> world" where
  "call WLAN c w = w\<lparr>radio_log := radio_log w @ [(if_mode WLAN, c)]\<rparr>"

definition wlan_status :: "wlan \<Rightarrow> world \<Rightarrow> int \<times> world" where
  "wlan_status WLAN w = (r_status (now w), call WLAN Status w)"

definition wlan_active :: "wlan \<Rightarrow> world \<Rightarrow> bool \<times> world" where
  "wlan_active WLAN w = (r_active (now w), call WLAN Active w)"

definition wlan_isconnected :: "wlan \<Rightarrow> world \<Rightarrow> bool \<times> world" where
  "wlan_isconnected WLAN w = (r_isconnected (now w), call WLAN IsConnected w)"

definition sleep :: "wlan \<Rightarrow> world \<Rightarrow> world" where
  "sleep WLAN w = call WLAN Sleep w"

definition radio_exc :: "radio_error \<Rightarrow> py_exc" where
  "radio_exc e = (case e of RadioTypeError \<Rightarrow> TypeError | RadioOSError \<Rightarrow> OSError)"

definition wlan_scan :: "wlan \<Rightarrow> world \<Rightarrow> ssid_bytes list result" where
  "wlan_scan WLAN w =
     (case r_scan (now w) of
        Inl e \<Rightarrow> Inl (radio_exc e, call WLAN Scan w)
      | Inr names \<Rightarrow> Inr (names, call WLAN Scan w))"

definition wlan_connect :: "wlan \<Rightarrow> string \<Rightarrow> string option \<Rightarrow> world \<Rightarrow> unit result" where
  "wlan_connect WLAN s p w =
     (case r_connect (now w) of
        Some e \<Rightarrow> Inl (radio_exc e, call WLAN (Connect s p) w)
      | None \<Rightarrow> Inr ((), call WLAN (Connect s p) w))"

text \<open>\<^verbatim>\<open>network.WLAN(mode)\<close>.\<close>

definition new_wlan :: "int \<Rightarrow> world \<Rightarrow> wlan \<times> world" where
  "new_wlan mode w =
     (let WLAN = \<lparr>if_mode = mode, cfg_ssid = None, cfg_password = None\<rparr>
      in (WLAN, call WLAN New w))"

text \<open>
  \<^verbatim>\<open>WLAN.config(ssid=..., password=...)\<close>. MicroPython reads both arguments as strings and
  raises \<open>TypeError\<close> on \<open>None\<close>; the power-management word \<^verbatim>\<open>pm\<close> is not kept.
\<close>

definition wlan_config :: "wlan \<Rightarrow> string option \<Rightarrow> string option \<Rightarrow> world \<Rightarrow> wlan result" where
  "wlan_config WLAN s p w =
     (if s = None \<or> p = None then Inl (TypeError, call WLAN (Config s p) w)
      else Inr (WLAN\<lparr>cfg_ssid := s, cfg_password := p\<rparr>, call WLAN (Config s p) w))"

text \<open>\<^verbatim>\<open>binascii.hexlify(machine.unique_id()).decode().upper()\<close>.\<close>

definition hexlify :: "8 word list \<Rightarrow> string" where
  "hexlify bs =
     concat (map (\<lambda>b. [''0123456789abcdef'' ! (unat b div 16), ''0123456789abcdef'' ! (unat b mod 16)]) bs)"

definition upper_char :: "char \<Rightarrow> char" where
  "upper_char c =
     (case map_of (zip ''abcdefghijklmnopqrstuvwxyz'' ''ABCDEFGHIJKLMNOPQRSTUVWXYZ'') c of
        None \<Rightarrow> c
      | Some u \<Rightarrow> u)"

definition upper :: "string \<Rightarrow> string" where
  "upper s = map upper_char s"

section \<open>connection.py\<close>

text \<open>
  The \<^verbatim>\<open>verbose\<close> argument of every function only switches the debug print, which is not
  modelled; the radio calls inside the f-strings of the messages are made either way and
  are kept.
\<close>

text \<open>
  The loop \<^verbatim>\<open>while next(await_timeout) >= 0\<close> of \<open>activate_interface\<close>, with \<open>n\<close>
  numbers left in \<^verbatim>\<open>iter(range(5))\<close>: \<^verbatim>\<open>next\<close> raises \<open>StopIteration\<close> on the
  exhausted iterator.
\<close>

fun await_active :: "wlan \<Rightarrow> nat \<Rightarrow> world \<Rightarrow> unit result" where
  "await_active WLAN 0 w = Inl (StopIteration, w)"
| "await_active WLAN (Suc n) w =
     (let (st, w1) = wlan_status WLAN w
      in if st = STAT_GOT_IP then Inr ((), w1)
         else (let (a, w2) = wlan_active WLAN w1
               in if a then Inr ((), w2) else await_active WLAN n (sleep WLAN w2)))"

definition activate_interface :: "wlan \<Rightarrow> world \<Rightarrow> unit result" where
  "activate_interface WLAN w =
     (case await_active WLAN 5 (call WLAN (SetActive True) w) of
        Inl (e, w') \<Rightarrow> if e = StopIteration then Inr ((), w') else Inl (e, w')
      | Inr r \<Rightarrow> Inr r)"

fun await_inactive :: "wlan \<Rightarrow> nat \<Rightarrow> world \<Rightarrow> unit result" where
  "await_inactive WLAN 0 w = Inl (StopIteration, w)"
| "await_inactive WLAN (Suc n) w =
     (let (a, w1) = wlan_active WLAN w
      in if \<not> a then Inr ((), w1) else await_inactive WLAN n (sleep WLAN w1))"

definition deactivate_interface :: "wlan \<Rightarrow> world \<Rightarrow> unit result" where
  "deactivate_interface WLAN w =
     (case await_inactive WLAN 5 (call WLAN (SetActive False) w) of
        Inl (e, w') \<Rightarrow> if e = StopIteration then Inr ((), w') else Inl (e, w')
      | Inr r \<Rightarrow> Inr r)"

text \<open>
  The loop of \<open>connect_interface\<close>: the debug message reads the status, the condition
  reads it again and, unless it is \<open>STAT_GOT_IP\<close>, asks \<^verbatim>\<open>isconnected()\<close>.
\<close>

fun await_connection :: "wlan \<Rightarrow> nat \<Rightarrow> world \<Rightarrow> unit result" where
  "await_connection WLAN 0 w = Inl (StopIteration, w)"
| "await_connection WLAN (Suc n) w =
     (let (shown, w0) = wlan_status WLAN w;
          (st, w1) = wlan_status WLAN w0
      in if st = STAT_GOT_IP then Inr ((), w1)
         else (let (c, w2) = wlan_isconnected WLAN w1
               in if c then Inr ((), w2) else await_connection WLAN n (sleep WLAN w2)))"

text \<open>
  The two handlers of the first \<^verbatim>\<open>try\<close> of \<open>connect_interface\<close> (micropython_default):
  \<^verbatim>\<open>except TypeError as e\<close> raises \<open>WLANConnectionError\<close>; \<^verbatim>\<open>except OSError:\<close> formats
  \<^verbatim>\<open>{e}\<close>, a local never bound there, and so raises \<open>NameError\<close>.
\<close>

definition connect_handler :: "py_exc \<Rightarrow> py_exc" where
  "connect_handler e =
     (if e = TypeError then WLANConnectionError
      else if e = OSError then NameError
      else e)"

text \<open>
  \<^verbatim>\<open>{name.decode() for name,*_ in set(WLAN.scan()) if name}\<close>: the empty names are
  skipped, every other name is decoded. The order in which the set is walked does not
  matter for the outcome: \<open>UnicodeError\<close> when some name does not decode, the decoded
  names otherwise.
\<close>

fun truthy :: "ssid_bytes \<Rightarrow> bool" where
  "truthy (Decodable s) = (s \<noteq> [])"
| "truthy Undecodable = True"

fun decode :: "ssid_bytes \<Rightarrow> py_exc + string" where
  "decode (Decodable s) = Inr s"
| "decode Undecodable = Inl UnicodeError"

fun available_networks :: "ssid_bytes list \<Rightarrow> py_exc + string list" where
  "available_networks [] = Inr []"
| "available_networks (name # rest) =
     (if truthy name
      then (case decode name of
              Inl e \<Rightarrow> Inl e
            | Inr s \<Rightarrow>
                (case available_networks rest of
                   Inl e \<Rightarrow> Inl e
                 | Inr ss \<Rightarrow> Inr (s # ss)))
      else available_networks rest)"

definition connect_interface :: "wlan \<Rightarrow> world \<Rightarrow> unit result" where
  "connect_interface WLAN w =
     (case dynamic_get_secret ''WLAN_SSID'' (secrets_py w) of
        Inl e \<Rightarrow> Inl (connect_handler e, w)
      | Inr WLAN_SSID \<Rightarrow>
     (case dynamic_get_secret ''WLAN_PASSWORD'' (secrets_py w) of
        Inl e \<Rightarrow> Inl (connect_handler e, w)
      | Inr WLAN_PASSWORD \<Rightarrow>
     (case WLAN_SSID of
        None \<Rightarrow> Inl (WLANConnectionError, w)
      | Some s \<Rightarrow>
     (case wlan_scan WLAN w of
        Inl (e, w1) \<Rightarrow> Inl (connect_handler e, w1)
      | Inr (found, w1) \<Rightarrow>
     (case available_networks found of
        Inl e \<Rightarrow> Inl (connect_handler e, w1)
      | Inr names \<Rightarrow>
          if s \<notin> set names then Inl (WLANConnectionError, w1)
          else
     (case wlan_connect WLAN s WLAN_PASSWORD w1 of
        Inl (e, w2) \<Rightarrow> Inl (connect_handler e, w2)
      | Inr (u, w2) \<Rightarrow>
     (case await_connection WLAN 30 w2 of
        Inl (e, w3) \<Rightarrow>
          if e = StopIteration then Inl (StopIteration, snd (wlan_status WLAN w3))
          else Inl (e, w3)
      | Inr r \<Rightarrow> Inr r)))))))"

definition access_point_reset :: "wlan \<Rightarrow> world \<Rightarrow> (wlan \<times> int) result" where
  "access_point_reset WLAN w =
     (case deactivate_interface WLAN (call WLAN Disconnect w) of
        Inl r \<Rightarrow> Inl r
      | Inr (u, w1) \<Rightarrow>
     (let (AP, w2) = new_wlan AP_IF (call WLAN Deinit w1)
      in
     (case dynamic_get_secret ''AP_SSID'' (secrets_py w2) of
        Inl e \<Rightarrow> Inl (e, w2)
      | Inr AP_SSID \<Rightarrow>
     (case dynamic_get_secret ''AP_PASSWORD'' (secrets_py w2) of
        Inl e \<Rightarrow> Inl (e, w2)
      | Inr AP_PASSWORD \<Rightarrow>
     (case wlan_config AP AP_SSID AP_PASSWORD w2 of
        Inl r \<Rightarrow> Inl r
      | Inr (AP', w3) \<Rightarrow>
     (case activate_interface AP' w3 of
        Inl r \<Rightarrow> Inl r
      | Inr (u', w4) \<Rightarrow> Inr ((AP', AP_IF), w4)))))))"

text \<open>\<^verbatim>\<open>dynamic_set_secret\<close> on the world's file; the returned flag is dropped by every caller here.\<close>

definition set_secret :: "string \<Rightarrow> string option \<Rightarrow> world \<Rightarrow> world" where
  "set_secret name value w = w\<lparr>secrets_py := snd (dynamic_set_secret name value (secrets_py w))\<rparr>"

text \<open>
  \<open>get_network_interface\<close> up to its \<^verbatim>\<open>try\<close>: the four secrets are read, the access-point
  credentials are generated when one of them is \<open>None\<close>, the mode is selected, the
  interface is created, configured and activated.
\<close>

definition select_interface :: "world \<Rightarrow> (wlan \<times> int) result" where
  "select_interface w =
     (case dynamic_get_secret ''WLAN_SSID'' (secrets_py w) of
        Inl e \<Rightarrow> Inl (e, w)
      | Inr WLAN_SSID \<Rightarrow>
     (case dynamic_get_secret ''WLAN_PASSWORD'' (secrets_py w) of
        Inl e \<Rightarrow> Inl (e, w)
      | Inr WLAN_PASSWORD \<Rightarrow>
     (case dynamic_get_secret ''AP_SSID'' (secrets_py w) of
        Inl e \<Rightarrow> Inl (e, w)
      | Inr AP_SSID0 \<Rightarrow>
     (case dynamic_get_secret ''AP_PASSWORD'' (secrets_py w) of
        Inl e \<Rightarrow> Inl (e, w)
      | Inr AP_PASSWORD0 \<Rightarrow>
     (let PICO_ID = upper (hexlify (unique_id w));
          generate = (AP_SSID0 = None \<or> AP_PASSWORD0 = None);
          AP_SSID = (if generate then Some (''PICO-W-'' @ PICO_ID) else AP_SSID0);
          AP_PASSWORD = (if generate then Some PICO_ID else AP_PASSWORD0);
          w1 = (if generate
                then set_secret ''AP_PASSWORD'' AP_PASSWORD (set_secret ''AP_SSID'' AP_SSID w)
                else w);
          unset = (case WLAN_SSID of None \<Rightarrow> True | Some s \<Rightarrow> length s < 1);
          w2 = (if unset
                then set_secret ''WLAN_PASSWORD'' None (set_secret ''WLAN_SSID'' None w1)
                else w1);
          WLAN_MODE = (if unset then AP_IF else STA_IF);
          (WLAN0, w3) = new_wlan WLAN_MODE w2
      in
     (case wlan_config WLAN0 AP_SSID AP_PASSWORD w3 of
        Inl r \<Rightarrow> Inl r
      | Inr (WLAN, w4) \<Rightarrow>
     (case activate_interface WLAN w4 of
        Inl r \<Rightarrow> Inl r
      | Inr (u, w5) \<Rightarrow> Inr ((WLAN, WLAN_MODE), w5))))))))"

text \<open>
  The \<^verbatim>\<open>try\<close> of \<open>get_network_interface\<close>: \<open>connect_interface\<close> is called whatever the
  mode is; \<open>WLANConnectionError\<close> and \<open>StopIteration\<close> have a handler each, and both
  handlers return \<open>access_point_reset(WLAN, verbose)\<close>.
\<close>

definition get_network_interface :: "world \<Rightarrow> (wlan \<times> int) result" where
  "get_network_interface w =
     (case select_interface w of
        Inl r \<Rightarrow> Inl r
      | Inr ((WLAN, WLAN_MODE), w5) \<Rightarrow>
     (case connect_interface WLAN w5 of
        Inr (u, w6) \<Rightarrow> Inr ((WLAN, WLAN_MODE), w6)
      | Inl (e, w6) \<Rightarrow>
          if e = WLANConnectionError then access_point_reset WLAN w6
          else if e = StopIteration then access_point_reset WLAN w6
          else Inl (e, w6)))"

text \<open>
  \<^verbatim>\<open>connection_issue(WLAN, WLAN_MODE, verbose)\<close>: \<^verbatim>\<open>or\<close> and \<^verbatim>\<open>and\<close> short-circuit, so
  \<^verbatim>\<open>isconnected()\<close> is asked only for a station.
\<close>

definition connection_issue :: "wlan \<Rightarrow> int \<Rightarrow> world \<Rightarrow> bool \<times> world" where
  "connection_issue WLAN WLAN_MODE w =
     (if WLAN_MODE = AP_IF then (True, w)
      else if WLAN_MODE = STA_IF
           then (let (c, w1) = wlan_isconnected WLAN w in (\<not> c, w1))
           else (False, w))"

section \<open>main.py: the handler of POST /connection\<close>

text \<open>
  \<^verbatim>\<open>request.form.get(...)\<close> answers \<open>None\<close> for a field the form lacks. The response is
  the JSON body's \<^verbatim>\<open>valid\<close> flag and the status code.
\<close>

record response =
  valid :: bool
  status_code :: int

definition set_connection :: "(string \<rightharpoonup> string) \<Rightarrow> secrets_file \<Rightarrow> response \<times> secrets_file" where
  "set_connection form f =
     (let WLAN_SSID = form ''input-ssid'';
          WLAN_PASSWORD = form ''input-password'';
          (stored_pw, f1) = dynamic_set_secret ''WLAN_PASSWORD'' WLAN_PASSWORD f;
          (stored_ssid, f2) = dynamic_set_secret ''WLAN_SSID'' WLAN_SSID f1
      in if \<not> stored_ssid then (\<lparr>valid = False, status_code = 400\<rparr>, f2)
         else (\<lparr>valid = True, status_code = 205\<rparr>, f2))"

section \<open>Observations used to state the properties\<close>

text \<open>How often a call occurs in the log.\<close>

definition count_calls :: "radio_call \<Rightarrow> world \<Rightarrow> nat" where
  "count_calls c w = length (filter (\<lambda>e. snd e = c) (radio_log w))"

text \<open>
  What an attempt of a waiting loop is told, the attempt starting when \<open>i\<close> calls are
  logged: \<open>activate_interface\<close> reads the status (answer \<open>i\<close>) and \<^verbatim>\<open>active()\<close>
  (answer \<open>i + 1\<close>), \<open>deactivate_interface\<close> reads \<^verbatim>\<open>active()\<close>, \<open>connect_interface\<close>
  shows the status, reads it again (answer \<open>i + 1\<close>) and asks \<^verbatim>\<open>isconnected()\<close>
  (answer \<open>i + 2\<close>).
\<close>

definition reports_up :: "world \<Rightarrow> nat \<Rightarrow> bool" where
  "reports_up w i \<longleftrightarrow> r_status (radio w i) = STAT_GOT_IP \<or> r_active (radio w (Suc i))"

definition reports_down :: "world \<Rightarrow> nat \<Rightarrow> bool" where
  "reports_down w i \<longleftrightarrow> \<not> r_active (radio w i)"

definition reports_connected :: "world \<Rightarrow> nat \<Rightarrow> bool" where
  "reports_connected w i \<longleftrightarrow>
     r_status (radio w (Suc i)) = STAT_GOT_IP \<or> r_isconnected (radio w (Suc (Suc i)))"

text \<open>The exception a result carries, if any.\<close>

definition raised :: "'a result \<Rightarrow> py_exc option" where
  "raised r = (case r of Inl (e, w) \<Rightarrow> Some e | Inr x \<Rightarrow> None)"

section \<open>Well-formed stores\<close>

text \<open>
  The four keys of the connection module. A store is well formed when every line is an
  assignment of the fragment and a key occurs in no line but its own assignments: then
  the substring test of \<open>dynamic_set_secret\<close> finds exactly the lines that assign the
  key. A value is plain when it can be written between quotes as it is and holds no key.
\<close>

definition store_keys :: "string list" where
  "store_keys = [''AP_SSID'', ''AP_PASSWORD'', ''WLAN_SSID'', ''WLAN_PASSWORD'']"

definition line_ok :: "string \<Rightarrow> bool" where
  "line_ok l \<longleftrightarrow>
     (case parse_line l of
        None \<Rightarrow> False
      | Some (n, v) \<Rightarrow> list_all (\<lambda>k. sublist k l \<longrightarrow> k = n) store_keys)"

definition store_ok :: "string \<Rightarrow> bool" where
  "store_ok c \<longleftrightarrow> list_all line_ok (readlines c)"

definition plain_value :: "string option \<Rightarrow> bool" where
  "plain_value v \<longleftrightarrow>
     (case v of
        None \<Rightarrow> True
      | Some s \<Rightarrow> list_all lit_char s \<and> list_all (\<lambda>k. \<not> sublist k s) store_keys)"

text \<open>The first statement of \<open>dynamic_set_secret\<close>: the empty string is stored as \<open>None\<close>.\<close>

definition normalised :: "string option \<Rightarrow> string option" where
  "normalised v = (if v = Some [] then None else v)"

text \<open>A line as \<open>readlines\<close> returns it from the middle of a file.\<close>

definition proper :: "string \<Rightarrow> bool" where
  "proper l \<longleftrightarrow> l \<noteq> [] \<and> last l = newline \<and> newline \<notin> set (butlast l)"

text \<open>
  What \<open>dynamic_get_secret\<close> reads in a module namespace, and a world whose secrets file is
  a well-formed store that imports as \<open>m\<close>.
\<close>

definition value_of :: "(string \<rightharpoonup> string option) \<Rightarrow> string \<Rightarrow> string option" where
  "value_of m name = normalised (case m name of None \<Rightarrow> None | Some v \<Rightarrow> v)"

definition store_view :: "world \<Rightarrow> (string \<rightharpoonup> string option) \<Rightarrow> bool" where
  "store_view w m \<longleftrightarrow>
     (case secrets_py w of
        None \<Rightarrow> False
      | Some c \<Rightarrow> store_ok c \<and> import_secrets (Some c) = Inr m)"

text \<open>Calls of a given kind in the log, and the world a result carries.\<close>

definition count_where :: "(radio_call \<Rightarrow> bool) \<Rightarrow> world \<Rightarrow> nat" where
  "count_where P w = length (filter (\<lambda>e. P (snd e)) (radio_log w))"

definition is_connect :: "radio_call \<Rightarrow> bool" where
  "is_connect c = (case c of Connect s p \<Rightarrow> True | _ \<Rightarrow> False)"

definition res_world :: "'a result \<Rightarrow> world" where
  "res_world r = (case r of Inl (e, w) \<Rightarrow> w | Inr (x, w) \<Rightarrow> w)"

text \<open>
  The radio is left alone: the same answers, the same identifier, the same secrets file.
\<close>

definition same_device :: "world \<Rightarrow> world \<Rightarrow> bool" where
  "same_device w w' \<longleftrightarrow> radio w' = radio w \<and> unique_id w' = unique_id w"

text \<open>
  The calls of the waiting loops, and a world that differs from another one in its log
  only.
\<close>

definition is_poll :: "radio_call \<Rightarrow> bool" where
  "is_poll c = (case c of Status \<Rightarrow> True | Active \<Rightarrow> True | Sleep \<Rightarrow> True | SetActive b \<Rightarrow> True | _ \<Rightarrow> False)"

definition kept :: "world \<Rightarrow> world \<Rightarrow> bool" where
  "kept w w' \<longleftrightarrow> secrets_py w' = secrets_py w \<and> radio w' = radio w \<and> unique_id w' = unique_id w"


section \<open>Example worlds\<close>

text \<open>A radio that is idle, sees no network and accepts a connect request.\<close>

definition quiet :: reading where
  "quiet = \<lparr>r_status = 0, r_active = False, r_isconnected = False, r_scan = Inr [], r_connect = None\<rparr>"

text \<open>The identifier of the comment in \<open>get_network_interface\<close>: E66161234567890B.\<close>

definition pico_id :: "8 word list" where
  "pico_id = [0xE6, 0x61, 0x61, 0x23, 0x45, 0x67, 0x89, 0x0B]"

definition fresh_world :: "secrets_file \<Rightarrow> (nat \<Rightarrow> reading) \<Rightarrow> world" where
  "fresh_world f r = \<lparr>secrets_py = f, radio_log = [], radio = r, unique_id = pico_id\<rparr>"

definition ap0 :: wlan where
  "ap0 = \<lparr>if_mode = AP_IF, cfg_ssid = None, cfg_password = None\<rparr>"

definition sta0 :: wlan where
  "sta0 = \<lparr>if_mode = STA_IF, cfg_ssid = None, cfg_password = None\<rparr>"

text \<open>A radio that reports active from its ninth answer on.\<close>

definition slow_world :: world where
  "slow_world = fresh_world (Some baseline) (\<lambda>k. quiet\<lparr>r_active := (8 \<le> k)\<rparr>)"

text \<open>A provisioned store, and the form of a request with an empty SSID.\<close>

definition home_store :: string where
  "home_store =
     ''AP_SSID = 'PICO-W-E66161234567890B'\<newline>'' @
     ''AP_PASSWORD = 'E66161234567890B'\<newline>'' @
     ''WLAN_SSID = 'HomeNet'\<newline>'' @
     ''WLAN_PASSWORD = 'secret'\<newline>'' @
     ''MQTT_ENDPOINT = None\<newline>'' @
     ''MQTT_CLIENT_ID = None\<newline>''"



text \<open>
  A store whose station SSID was cleared while a password stayed behind, and two
  radios: one that sees \<^verbatim>\<open>HomeNet\<close> but never reports a connection, one that sees
  another network only.
\<close>

definition stale_store :: string where
  "stale_store =
     ''AP_SSID = 'PICO-W-E66161234567890B'\<newline>'' @
     ''AP_PASSWORD = 'E66161234567890B'\<newline>'' @
     ''WLAN_SSID = None\<newline>'' @
     ''WLAN_PASSWORD = 'hunter2'\<newline>'' @
     ''MQTT_ENDPOINT = None\<newline>'' @
     ''MQTT_CLIENT_ID = None\<newline>''"

definition home_radio :: "nat \<Rightarrow> reading" where
  "home_radio = (\<lambda>k. quiet\<lparr>r_scan := Inr [Decodable ''HomeNet'']\<rparr>)"

definition other_radio :: "nat \<Rightarrow> reading" where
  "other_radio = (\<lambda>k. quiet\<lparr>r_scan := Inr [Decodable ''OtherNet'']\<rparr>)"

text \<open>
  A radio in whose range one network has an SSID that is no valid UTF-8, and a store
  without a \<open>WLAN_SSID\<close> line.
\<close>

definition garbled_radio :: "nat \<Rightarrow> reading" where
  "garbled_radio = (\<lambda>k. quiet\<lparr>r_scan := Inr [Decodable ''OtherNet'', Undecodable]\<rparr>)"

definition ssidless_store :: string where
  "ssidless_store =
     ''AP_SSID = 'PICO-W-E66161234567890B'\<newline>'' @
     ''AP_PASSWORD = 'E66161234567890B'\<newline>'' @
     ''WLAN_PASSWORD = None\<newline>'' @
     ''MQTT_ENDPOINT = None\<newline>'' @
     ''MQTT_CLIENT_ID = None\<newline>''"

text \<open>Two requests: a password with a quote in it, with and without an SSID.\<close>

definition quote_form :: "string \<rightharpoonup> string" where
  "quote_form = [''input-ssid'' \<mapsto> ''HomeNet'', ''input-password'' \<mapsto> ''it's'']"

definition quote_form_empty_ssid :: "string \<rightharpoonup> string" where
  "quote_form_empty_ssid = [''input-ssid'' \<mapsto> [], ''input-password'' \<mapsto> ''it's'']"

section \<open>The waiting loops\<close>

lemma call_simps [simp]:
  "radio (call WLAN c w) = radio w"
  "secrets_py (call WLAN c w) = secrets_py w"
  "unique_id (call WLAN c w) = unique_id w"
  "radio_log (call WLAN c w) = radio_log w @ [(if_mode WLAN, c)]"
  by (simp_all add: call_def)

lemma count_calls_call [simp]:
  "count_calls c (call WLAN d w) = count_calls c w + (if d = c then 1 else 0)"
  by (simp add: count_calls_def)

lemma await_active_frame:
  "await_active WLAN n w = Inl (e, w') \<or> await_active WLAN n w = Inr (u, w') \<Longrightarrow>
   radio w' = radio w \<and> secrets_py w' = secrets_py w \<and> unique_id w' = unique_id w"
  by (induction n arbitrary: w)
     (auto simp: wlan_status_def wlan_active_def sleep_def Let_def split: if_splits)

lemma await_active_bound:
  "await_active WLAN n w = Inl (e, w') \<or> await_active WLAN n w = Inr (u, w') \<Longrightarrow>
   count_calls Status w' \<le> count_calls Status w + n \<and> count_calls Active w' \<le> count_calls Active w + n"
proof (induction n arbitrary: w)
  case 0
  then show ?case by auto
next
  case (Suc n)
  show ?case
  proof (cases "r_status (now w) = STAT_GOT_IP")
    case True
    with Suc.prems show ?thesis by (auto simp: wlan_status_def)
  next
    case nogot: False
    show ?thesis
    proof (cases "r_active (now (call WLAN Status w))")
      case True
      with nogot Suc.prems show ?thesis by (auto simp: wlan_status_def wlan_active_def)
    next
      case False
      with nogot Suc.prems have
        "await_active WLAN n (sleep WLAN (call WLAN Active (call WLAN Status w))) = Inl (e, w') \<or>
         await_active WLAN n (sleep WLAN (call WLAN Active (call WLAN Status w))) = Inr (u, w')"
        by (auto simp: wlan_status_def wlan_active_def)
      from Suc.IH [OF this] show ?thesis by (simp add: sleep_def)
    qed
  qed
qed

lemma await_active_only_stop:
  "await_active WLAN n w = Inl (e, w') \<Longrightarrow> e = StopIteration"
  by (induction n arbitrary: w)
     (auto simp: wlan_status_def wlan_active_def Let_def split: if_splits)

lemma await_active_early:
  "k < n \<Longrightarrow> \<forall>j<k. \<not> reports_up w (length (radio_log w) + 3 * j) \<Longrightarrow>
   reports_up w (length (radio_log w) + 3 * k) \<Longrightarrow>
   \<exists>w'. await_active WLAN n w = Inr ((), w') \<and> count_calls Status w' = count_calls Status w + k + 1"
proof (induction n arbitrary: w k)
  case 0
  then show ?case by simp
next
  case (Suc n)
  show ?case
  proof (cases k)
    case 0
    with Suc.prems(3) show ?thesis
      by (auto simp: reports_up_def wlan_status_def wlan_active_def now_def)
  next
    case (Suc k')
    let ?w = "sleep WLAN (call WLAN Active (call WLAN Status w))"
    from Suc Suc.prems(2) have "\<not> reports_up w (length (radio_log w))"
      by (metis add.right_neutral mult_0_right zero_less_Suc)
    then have step: "await_active WLAN (Suc n) w = await_active WLAN n ?w"
      by (auto simp: reports_up_def wlan_status_def wlan_active_def now_def)
    have len: "length (radio_log ?w) = length (radio_log w) + 3" by (simp add: sleep_def)
    have rad: "radio ?w = radio w" by (simp add: sleep_def)
    have a: "k' < n" using Suc Suc.prems(1) by simp
    have b: "\<forall>j<k'. \<not> reports_up ?w (length (radio_log ?w) + 3 * j)"
    proof (intro allI impI)
      fix j assume "j < k'"
      then have "\<not> reports_up w (length (radio_log w) + 3 * Suc j)"
        using Suc Suc.prems(2) by (meson Suc_mono)
      then show "\<not> reports_up ?w (length (radio_log ?w) + 3 * j)"
        by (simp add: len reports_up_def rad add.commute add.left_commute)
    qed
    have c: "reports_up ?w (length (radio_log ?w) + 3 * k')"
      using Suc Suc.prems(3) by (simp add: len reports_up_def rad add.commute add.left_commute)
    from Suc.IH [OF a b c] obtain w' where
      "await_active WLAN n ?w = Inr ((), w')" "count_calls Status w' = count_calls Status ?w + k' + 1"
      by blast
    with step Suc show ?thesis by (simp add: sleep_def)
  qed
qed

lemma await_active_exhausted:
  "\<forall>j<n. \<not> reports_up w (length (radio_log w) + 3 * j) \<Longrightarrow>
   \<exists>w'. await_active WLAN n w = Inl (StopIteration, w') \<and> count_calls Status w' = count_calls Status w + n"
proof (induction n arbitrary: w)
  case 0
  then show ?case by simp
next
  case (Suc n)
  let ?w = "sleep WLAN (call WLAN Active (call WLAN Status w))"
  from Suc.prems have "\<not> reports_up w (length (radio_log w))"
    by (metis add.right_neutral mult_0_right zero_less_Suc)
  then have step: "await_active WLAN (Suc n) w = await_active WLAN n ?w"
    by (auto simp: reports_up_def wlan_status_def wlan_active_def now_def)
  have len: "length (radio_log ?w) = length (radio_log w) + 3" by (simp add: sleep_def)
  have rad: "radio ?w = radio w" by (simp add: sleep_def)
  have b: "\<forall>j<n. \<not> reports_up ?w (length (radio_log ?w) + 3 * j)"
  proof (intro allI impI)
    fix j assume "j < n"
    then have "\<not> reports_up w (length (radio_log w) + 3 * Suc j)"
      using Suc.prems by (meson Suc_mono)
    then show "\<not> reports_up ?w (length (radio_log ?w) + 3 * j)"
      by (simp add: len reports_up_def rad add.commute add.left_commute)
  qed
  from Suc.IH [OF b] obtain w' where
    "await_active WLAN n ?w = Inl (StopIteration, w')" "count_calls Status w' = count_calls Status ?w + n"
    by blast
  with step show ?case by (simp add: sleep_def)
qed

lemma await_inactive_bound:
  "await_inactive WLAN n w = Inl (e, w') \<or> await_inactive WLAN n w = Inr (u, w') \<Longrightarrow>
   count_calls Active w' \<le> count_calls Active w + n"
proof (induction n arbitrary: w)
  case 0
  then show ?case by auto
next
  case (Suc n)
  show ?case
  proof (cases "r_active (now w)")
    case False
    with Suc.prems show ?thesis by (auto simp: wlan_active_def)
  next
    case True
    with Suc.prems have
      "await_inactive WLAN n (sleep WLAN (call WLAN Active w)) = Inl (e, w') \<or>
       await_inactive WLAN n (sleep WLAN (call WLAN Active w)) = Inr (u, w')"
      by (auto simp: wlan_active_def)
    from Suc.IH [OF this] show ?thesis by (simp add: sleep_def)
  qed
qed

lemma await_inactive_only_stop:
  "await_inactive WLAN n w = Inl (e, w') \<Longrightarrow> e = StopIteration"
  by (induction n arbitrary: w)
     (auto simp: wlan_active_def Let_def split: if_splits)

lemma await_inactive_early:
  "k < n \<Longrightarrow> \<forall>j<k. \<not> reports_down w (length (radio_log w) + 2 * j) \<Longrightarrow>
   reports_down w (length (radio_log w) + 2 * k) \<Longrightarrow>
   \<exists>w'. await_inactive WLAN n w = Inr ((), w') \<and> count_calls Active w' = count_calls Active w + k + 1"
proof (induction n arbitrary: w k)
  case 0
  then show ?case by simp
next
  case (Suc n)
  show ?case
  proof (cases k)
    case 0
    with Suc.prems(3) show ?thesis
      by (auto simp: reports_down_def wlan_active_def now_def)
  next
    case (Suc k')
    let ?w = "sleep WLAN (call WLAN Active w)"
    from Suc Suc.prems(2) have "\<not> reports_down w (length (radio_log w))"
      by (metis add.right_neutral mult_0_right zero_less_Suc)
    then have step: "await_inactive WLAN (Suc n) w = await_inactive WLAN n ?w"
      by (auto simp: reports_down_def wlan_active_def now_def)
    have len: "length (radio_log ?w) = length (radio_log w) + 2" by (simp add: sleep_def)
    have rad: "radio ?w = radio w" by (simp add: sleep_def)
    have a: "k' < n" using Suc Suc.prems(1) by simp
    have b: "\<forall>j<k'. \<not> reports_down ?w (length (radio_log ?w) + 2 * j)"
    proof (intro allI impI)
      fix j assume "j < k'"
      then have "\<not> reports_down w (length (radio_log w) + 2 * Suc j)"
        using Suc Suc.prems(2) by (meson Suc_mono)
      then show "\<not> reports_down ?w (length (radio_log ?w) + 2 * j)"
        by (simp add: len reports_down_def rad add.commute add.left_commute)
    qed
    have c: "reports_down ?w (length (radio_log ?w) + 2 * k')"
      using Suc Suc.prems(3) by (simp add: len reports_down_def rad add.commute add.left_commute)
    from Suc.IH [OF a b c] obtain w' where
      "await_inactive WLAN n ?w = Inr ((), w')" "count_calls Active w' = count_calls Active ?w + k' + 1"
      by blast
    with step Suc show ?thesis by (simp add: sleep_def)
  qed
qed

lemma await_inactive_exhausted:
  "\<forall>j<n. \<not> reports_down w (length (radio_log w) + 2 * j) \<Longrightarrow>
   \<exists>w'. await_inactive WLAN n w = Inl (StopIteration, w') \<and> count_calls Active w' = count_calls Active w + n"
proof (induction n arbitrary: w)
  case 0
  then show ?case by simp
next
  case (Suc n)
  let ?w = "sleep WLAN (call WLAN Active w)"
  from Suc.prems have "\<not> reports_down w (length (radio_log w))"
    by (metis add.right_neutral mult_0_right zero_less_Suc)
  then have step: "await_inactive WLAN (Suc n) w = await_inactive WLAN n ?w"
    by (auto simp: reports_down_def wlan_active_def now_def)
  have len: "length (radio_log ?w) = length (radio_log w) + 2" by (simp add: sleep_def)
  have rad: "radio ?w = radio w" by (simp add: sleep_def)
  have b: "\<forall>j<n. \<not> reports_down ?w (length (radio_log ?w) + 2 * j)"
  proof (intro allI impI)
    fix j assume "j < n"
    then have "\<not> reports_down w (length (radio_log w) + 2 * Suc j)"
      using Suc.prems by (meson Suc_mono)
    then show "\<not> reports_down ?w (length (radio_log ?w) + 2 * j)"
      by (simp add: len reports_down_def rad add.commute add.left_commute)
  qed
  from Suc.IH [OF b] obtain w' where
    "await_inactive WLAN n ?w = Inl (StopIteration, w')" "count_calls Active w' = count_calls Active ?w + n"
    by blast
  with step show ?case by (simp add: sleep_def)
qed

lemma activate_interface_returns:
  "\<exists>w'. activate_interface WLAN w = Inr ((), w')"
proof (cases "await_active WLAN 5 (call WLAN (SetActive True) w)")
  case (Inl a)
  then obtain e w' where "await_active WLAN 5 (call WLAN (SetActive True) w) = Inl (e, w')"
    by (cases a) auto
  moreover from this have "e = StopIteration" by (rule await_active_only_stop)
  ultimately show ?thesis by (simp add: activate_interface_def)
next
  case (Inr b)
  then show ?thesis by (cases b) (simp add: activate_interface_def)
qed

lemma deactivate_interface_returns:
  "\<exists>w'. deactivate_interface WLAN w = Inr ((), w')"
proof (cases "await_inactive WLAN 5 (call WLAN (SetActive False) w)")
  case (Inl a)
  then obtain e w' where "await_inactive WLAN 5 (call WLAN (SetActive False) w) = Inl (e, w')"
    by (cases a) auto
  moreover from this have "e = StopIteration" by (rule await_inactive_only_stop)
  ultimately show ?thesis by (simp add: deactivate_interface_def)
next
  case (Inr b)
  then show ?thesis by (cases b) (simp add: deactivate_interface_def)
qed

lemma activate_interface_loop:
  "activate_interface WLAN w = Inr ((), w') \<Longrightarrow>
   await_active WLAN 5 (call WLAN (SetActive True) w) = Inl (StopIteration, w') \<or>
   await_active WLAN 5 (call WLAN (SetActive True) w) = Inr ((), w')"
  by (auto simp: activate_interface_def split: sum.splits if_splits)

lemma deactivate_interface_loop:
  "deactivate_interface WLAN w = Inr ((), w') \<Longrightarrow>
   await_inactive WLAN 5 (call WLAN (SetActive False) w) = Inl (StopIteration, w') \<or>
   await_inactive WLAN 5 (call WLAN (SetActive False) w) = Inr ((), w')"
  by (auto simp: deactivate_interface_def split: sum.splits if_splits)


section \<open>The secrets file: reading back what was written\<close>

lemma readlines_proper: "proper l \<Longrightarrow> readlines (l @ rest) = l # readlines rest"
proof (induction l)
  case Nil
  then show ?case by (simp add: proper_def)
next
  case (Cons c l)
  show ?case
  proof (cases "l = []")
    case True
    with Cons.prems show ?thesis by (simp add: proper_def)
  next
    case False
    with Cons.prems have "proper l" "c \<noteq> newline" by (auto simp: proper_def)
    with Cons.IH show ?thesis by simp
  qed
qed

lemma readlines_concat: "list_all proper ls \<Longrightarrow> readlines (concat ls) = ls"
  by (induction ls) (simp_all add: readlines_proper)

lemma newline_not_ident: "\<not> ident_char newline"
  by (simp add: ident_char_def ident_start_def newline_def)

lemma newline_not_lit: "\<not> lit_char newline"
  by (simp add: lit_char_def newline_def)

lemma parse_value_no_newline:
  assumes "parse_value r = Some v"
  shows "newline \<notin> set r"
proof (cases "r = ''None''")
  case True
  then show ?thesis by (simp add: newline_def)
next
  case False
  with assms obtain body where r: "r = quote # body" and b: "body \<noteq> []" "last body = quote"
    "list_all lit_char (butlast body)"
    by (auto simp: parse_value_def split: list.splits if_splits)
  from b have "body = butlast body @ [quote]" by (metis append_butlast_last_id)
  then have "set body = set (butlast body) \<union> {quote}" by (metis Un_insert_right list.simps(15) set_append sup_bot.right_neutral set_simps(1) empty_set)
  with b(3) r show ?thesis
    using newline_not_lit by (auto simp: list_all_iff quote_def newline_def)
qed

lemma parse_line_name_sublist: "parse_line l = Some (n, v) \<Longrightarrow> sublist n l"
  by (auto simp: parse_line_def Let_def split: if_splits)

lemma parse_secret_line:
  assumes "is_identifier k" and "v = None \<or> (\<exists>s. v = Some s \<and> list_all lit_char s)"
  shows "parse_line (secret_line k v) = Some (k, v)"
proof -
  from assms(1) have ids: "\<forall>c\<in>set k. ident_char c" by (simp add: is_identifier_def list_all_iff)
  have sp: "\<not> ident_char CHR '' ''" by (simp add: ident_char_def ident_start_def)
  have tw: "takeWhile ident_char (k @ CHR '' '' # rest) = k" for rest
    using ids sp by (simp add: takeWhile_append2)
  have dw: "dropWhile ident_char (k @ CHR '' '' # rest) = CHR '' '' # rest" for rest
    using ids sp by (simp add: dropWhile_append2)
  show ?thesis
  proof (cases v)
    case None
    then show ?thesis
      using assms(1) tw [of "''= None'' @ [newline]"] dw [of "''= None'' @ [newline]"]
      by (simp add: secret_line_def parse_line_def parse_value_def)
  next
    case (Some s)
    with assms(2) have lit: "list_all lit_char s" by simp
    have q: "quote # s @ [quote] \<noteq> ''None''" by (simp add: quote_def)
    show ?thesis
      using assms(1) lit q Some tw [of "''= '' @ quote # s @ [quote, newline]"]
        dw [of "''= '' @ quote # s @ [quote, newline]"]
      by (simp add: secret_line_def parse_line_def parse_value_def butlast_append)
  qed
qed

lemma sublist_split:
  assumes "c \<notin> set k"
  shows "sublist k (xs @ c # ys) \<longleftrightarrow> sublist k xs \<or> sublist k ys"
proof
  assume "sublist k (xs @ c # ys)"
  then consider "sublist k xs" | "sublist k (c # ys)"
    | k1 k2 where "k = k1 @ k2" "suffix k1 xs" "prefix k2 (c # ys)"
    by (auto simp: sublist_append)
  then show "sublist k xs \<or> sublist k ys"
  proof cases
    case 1
    then show ?thesis by simp
  next
    case 2
    then have "prefix k (c # ys) \<or> sublist k ys" by (simp add: sublist_Cons_right)
    moreover have "k = []" if "prefix k (c # ys)"
      using that assms by (cases k) auto
    ultimately show ?thesis by auto
  next
    case 3
    have "k2 = []" using 3(3) 3(1) assms by (cases k2) auto
    with 3 have "suffix k xs" by simp
    then show ?thesis by auto
  qed
next
  assume "sublist k xs \<or> sublist k ys"
  then show "sublist k (xs @ c # ys)"
    by (metis sublist_append sublist_Cons_right)
qed

lemma store_keys_simps:
  "k \<in> set store_keys \<longleftrightarrow> k = ''AP_SSID'' \<or> k = ''AP_PASSWORD'' \<or> k = ''WLAN_SSID'' \<or> k = ''WLAN_PASSWORD''"
  by (auto simp: store_keys_def)

lemma parse_line_cases:
  assumes "parse_line l = Some (n, v)"
  shows "n = takeWhile ident_char l" "is_identifier n"
    "take 3 (dropWhile ident_char l) = '' = ''"
    "last (dropWhile ident_char l) = newline"
    "parse_value (butlast (drop 3 (dropWhile ident_char l))) = Some v"
proof -
  have c: "is_identifier (takeWhile ident_char l) \<and> take 3 (dropWhile ident_char l) = '' = '' \<and>
           last (dropWhile ident_char l) = newline"
    using assms unfolding parse_line_def Let_def by (rule_tac ccontr) (simp only: if_False option.distinct)
  with assms have m: "map_option (Pair (takeWhile ident_char l))
       (parse_value (butlast (drop 3 (dropWhile ident_char l)))) = Some (n, v)"
    unfolding parse_line_def Let_def by (simp only: if_True simp_thms)
  then show "n = takeWhile ident_char l"
    and "parse_value (butlast (drop 3 (dropWhile ident_char l))) = Some v"
    by (auto simp only: map_option_eq_Some prod.inject)
  with c show "is_identifier n" "take 3 (dropWhile ident_char l) = '' = ''"
    "last (dropWhile ident_char l) = newline" by (simp_all only:)
qed

lemma shape_aux:
  assumes t3: "take 3 rest = [a, b, c]" and lst: "last rest = nl" and ne: "nl \<noteq> c"
  shows "rest = [a, b, c] @ butlast (drop 3 rest) @ [nl]"
proof -
  have r: "rest = [a, b, c] @ drop 3 rest"
    using append_take_drop_id [of 3 rest] unfolding t3 by (rule sym)
  have dne: "drop 3 rest \<noteq> []"
  proof
    assume e: "drop 3 rest = []"
    have "rest = [a, b, c]" using r unfolding e by (simp only: append_Nil2)
    then have "last rest = c" by simp
    with lst ne show False by simp
  qed
  have "last ([a, b, c] @ drop 3 rest) = last (drop 3 rest)"
    by (rule last_appendR [OF dne])
  then have "last rest = last (drop 3 rest)" by (simp only: r [symmetric])
  with lst have "last (drop 3 rest) = nl" by simp
  with append_butlast_last_id [OF dne] have f: "butlast (drop 3 rest) @ [nl] = drop 3 rest"
    by simp
  show ?thesis by (subst f) (rule r)
qed

lemma parse_line_shape:
  assumes "parse_line l = Some (n, v)"
  shows "\<exists>r. l = n @ '' = '' @ r @ [newline] \<and> list_all ident_char n \<and> is_identifier n \<and>
             parse_value r = Some v"
proof -
  note c = parse_line_cases [OF assms]
  have ne: "newline \<noteq> CHR '' ''" by (simp add: newline_def)
  have l: "l = n @ dropWhile ident_char l"
    unfolding c(1) by (rule takeWhile_dropWhile_id [symmetric])
  have eq: "l = n @ '' = '' @ butlast (drop 3 (dropWhile ident_char l)) @ [newline]"
    by (subst shape_aux [OF c(3) c(4) ne, symmetric]) (rule l)
  have ids: "list_all ident_char n" unfolding c(1) by (auto simp: list_all_iff dest: set_takeWhileD)
  show ?thesis
  proof (rule exI [of _ "butlast (drop 3 (dropWhile ident_char l))"], intro conjI)
    show "l = n @ '' = '' @ butlast (drop 3 (dropWhile ident_char l)) @ [newline]" by (rule eq)
    show "list_all ident_char n" by (rule ids)
    show "is_identifier n" by (rule c(2))
    show "parse_value (butlast (drop 3 (dropWhile ident_char l))) = Some v" by (rule c(5))
  qed
qed

lemma parse_line_proper:
  assumes "parse_line l = Some (n, v)"
  shows "proper l"
proof -
  from parse_line_shape [OF assms] obtain r where
    l: "l = n @ '' = '' @ r @ [newline]" and n: "list_all ident_char n" and
    r: "parse_value r = Some v" by (elim exE conjE)
  from n have nn: "newline \<notin> set n" using newline_not_ident by (auto simp: list_all_iff)
  from r have nr: "newline \<notin> set r" by (rule parse_value_no_newline)
  have "proper (n @ '' = '' @ r @ [newline])"
    using nn nr by (simp add: proper_def butlast_append newline_def)
  then show ?thesis by (simp only: l [symmetric])
qed


lemma store_key_chars:
  "k \<in> set store_keys \<Longrightarrow>
   CHR '' '' \<notin> set k \<and> CHR ''='' \<notin> set k \<and> quote \<notin> set k \<and> newline \<notin> set k \<and> k \<noteq> []"
  by (auto simp: store_keys_simps quote_def newline_def)

lemma is_identifier_keys:
  "is_identifier ''AP_SSID''" "is_identifier ''AP_PASSWORD''"
  "is_identifier ''WLAN_SSID''" "is_identifier ''WLAN_PASSWORD''"
  by (simp_all add: is_identifier_def ident_char_def ident_start_def py_keywords_def)

lemma store_key_identifier: "k \<in> set store_keys \<Longrightarrow> is_identifier k"
  unfolding store_keys_simps using is_identifier_keys by blast

lemma keys_not_sublist:
  "\<not> sublist ''AP_SSID'' ''AP_PASSWORD''" "\<not> sublist ''AP_SSID'' ''WLAN_SSID''"
  "\<not> sublist ''AP_SSID'' ''WLAN_PASSWORD''" "\<not> sublist ''AP_PASSWORD'' ''AP_SSID''"
  "\<not> sublist ''AP_PASSWORD'' ''WLAN_SSID''" "\<not> sublist ''AP_PASSWORD'' ''WLAN_PASSWORD''"
  "\<not> sublist ''WLAN_SSID'' ''AP_SSID''" "\<not> sublist ''WLAN_SSID'' ''AP_PASSWORD''"
  "\<not> sublist ''WLAN_SSID'' ''WLAN_PASSWORD''" "\<not> sublist ''WLAN_PASSWORD'' ''AP_SSID''"
  "\<not> sublist ''WLAN_PASSWORD'' ''AP_PASSWORD''" "\<not> sublist ''WLAN_PASSWORD'' ''WLAN_SSID''"
  by (simp_all add: sublist_code)

lemma store_keys_apart:
  "k \<in> set store_keys \<Longrightarrow> k' \<in> set store_keys \<Longrightarrow> sublist k' k \<Longrightarrow> k' = k"
  unfolding store_keys_simps using keys_not_sublist by blast

lemma keys_not_in_none:
  "k \<in> set store_keys \<Longrightarrow> \<not> sublist k ''None''"
  unfolding store_keys_simps by (auto simp: sublist_code)

lemma sublist_Cons_skip: "c \<notin> set k \<Longrightarrow> k \<noteq> [] \<Longrightarrow> sublist k (c # ys) \<longleftrightarrow> sublist k ys"
  using sublist_split [of c k "[]" ys] by simp

lemma key_in_quoted:
  assumes "k' \<in> set store_keys" "k \<in> set store_keys"
  shows "sublist k' (k @ '' = '' @ [quote] @ s @ [quote, newline]) \<longleftrightarrow> sublist k' k \<or> sublist k' s"
proof -
  from store_key_chars [OF assms(1)] have ch: "CHR '' '' \<notin> set k'" "CHR ''='' \<notin> set k'"
    "quote \<notin> set k'" "newline \<notin> set k'" "k' \<noteq> []" by simp_all
  have "sublist k' (k @ CHR '' '' # (CHR ''='' # CHR '' '' # quote # s @ quote # [newline])) \<longleftrightarrow>
        sublist k' k \<or> sublist k' (CHR ''='' # CHR '' '' # quote # s @ quote # [newline])"
    by (rule sublist_split [OF ch(1)])
  also have "sublist k' (CHR ''='' # CHR '' '' # quote # s @ quote # [newline]) \<longleftrightarrow>
        sublist k' (s @ quote # [newline])"
    by (simp only: sublist_Cons_skip [OF ch(2) ch(5)] sublist_Cons_skip [OF ch(1) ch(5)]
        sublist_Cons_skip [OF ch(3) ch(5)])
  also have "sublist k' (s @ quote # [newline]) \<longleftrightarrow> sublist k' s \<or> sublist k' [newline]"
    by (rule sublist_split [OF ch(3)])
  also have "sublist k' [newline] \<longleftrightarrow> False"
    using ch(5) by (simp add: sublist_Cons_skip [OF ch(4) ch(5)])
  finally show ?thesis by simp
qed

lemma key_in_secret_line:
  assumes "k' \<in> set store_keys" "k \<in> set store_keys"
  shows "sublist k' (secret_line k v) \<longleftrightarrow>
         sublist k' k \<or> (case v of None \<Rightarrow> False | Some s \<Rightarrow> sublist k' s)"
proof (cases v)
  case None
  from store_key_chars [OF assms(1)] have ch: "CHR '' '' \<notin> set k'" by simp
  have "sublist k' (k @ CHR '' '' # ''= None'' @ [newline]) \<longleftrightarrow>
        sublist k' k \<or> sublist k' (''= None'' @ [newline])"
    by (rule sublist_split [OF ch])
  moreover have "\<not> sublist k' (''= None'' @ [newline])"
    using assms(1) unfolding store_keys_simps by (auto simp: sublist_code newline_def)
  ultimately show ?thesis using None by (simp add: secret_line_def)
next
  case (Some s)
  with key_in_quoted [OF assms, of s] show ?thesis by (simp add: secret_line_def)
qed

lemma plain_normalised: "plain_value v \<Longrightarrow> plain_value (normalised v)"
  by (simp add: normalised_def plain_value_def)

lemma plain_lit: "plain_value v \<Longrightarrow> v = None \<or> (\<exists>s. v = Some s \<and> list_all lit_char s)"
  by (cases v) (simp_all add: plain_value_def)

lemma line_ok_secret_line:
  assumes k: "k \<in> set store_keys" and pv: "plain_value v"
  shows "parse_line (secret_line k v) = Some (k, v)" and "line_ok (secret_line k v)"
proof -
  show p: "parse_line (secret_line k v) = Some (k, v)"
    using store_key_identifier [OF k] plain_lit [OF pv] by (rule parse_secret_line)
  have "k' = k" if "k' \<in> set store_keys" "sublist k' (secret_line k v)" for k'
  proof -
    from that key_in_secret_line [OF that(1) k, of v]
    have "sublist k' k \<or> (case v of None \<Rightarrow> False | Some s \<Rightarrow> sublist k' s)" by simp
    moreover have "\<not> (case v of None \<Rightarrow> False | Some s \<Rightarrow> sublist k' s)"
      using pv that(1) by (cases v) (auto simp: plain_value_def list_all_iff)
    ultimately show ?thesis using store_keys_apart [OF k that(1)] by blast
  qed
  with p show "line_ok (secret_line k v)" by (auto simp: line_ok_def list_all_iff)
qed

lemma line_ok_parse:
  "line_ok l \<Longrightarrow> \<exists>n v. parse_line l = Some (n, v) \<and> (\<forall>k\<in>set store_keys. sublist k l \<longrightarrow> k = n)"
  by (auto simp: line_ok_def list_all_iff split: option.splits)

lemma line_ok_proper: "line_ok l \<Longrightarrow> proper l"
  using line_ok_parse parse_line_proper by blast

lemma line_ok_key:
  assumes "line_ok l" "k \<in> set store_keys"
  shows "sublist k l \<longleftrightarrow> (\<exists>v. parse_line l = Some (k, v))"
proof -
  from line_ok_parse [OF assms(1)] obtain n v where p: "parse_line l = Some (n, v)"
    and only: "\<And>k. k \<in> set store_keys \<Longrightarrow> sublist k l \<Longrightarrow> k = n"
    by blast
  show ?thesis
  proof
    assume "sublist k l"
    with only assms(2) have "k = n" by blast
    with p show "\<exists>v. parse_line l = Some (k, v)" by blast
  next
    assume "\<exists>v. parse_line l = Some (k, v)"
    then show "sublist k l" by (auto dest: parse_line_name_sublist)
  qed
qed

lemma exec_lines_append:
  "exec_lines (xs @ ys) m0 = (case exec_lines xs m0 of Inl e \<Rightarrow> Inl e | Inr m \<Rightarrow> exec_lines ys m)"
  by (induction xs arbitrary: m0) (auto split: option.splits)

lemma exec_lines_dom_key:
  "list_all line_ok ls \<Longrightarrow> k \<in> set store_keys \<Longrightarrow> exec_lines ls m0 = Inr m \<Longrightarrow>
   k \<in> dom m \<longleftrightarrow> k \<in> dom m0 \<or> list_ex (sublist k) ls"
proof (induction ls arbitrary: m0)
  case Nil
  then show ?case by simp
next
  case (Cons l ls)
  from Cons.prems(1) have ok: "line_ok l" and oks: "list_all line_ok ls" by simp_all
  from line_ok_parse [OF ok] obtain n v where p: "parse_line l = Some (n, v)" by blast
  with Cons.prems(3) have ex: "exec_lines ls (m0(n \<mapsto> v)) = Inr m" by simp
  have "sublist k l \<longleftrightarrow> n = k" using line_ok_key [OF ok Cons.prems(2)] p by auto
  with Cons.IH [OF oks Cons.prems(2) ex] show ?case by auto
qed

lemma exec_lines_replace:
  assumes nl: "parse_line nl = Some (k, v')" and k: "k \<in> set store_keys"
  shows "list_all line_ok ls \<Longrightarrow> exec_lines ls m0 = Inr m \<Longrightarrow>
     exec_lines (map (\<lambda>l. if sublist k l then nl else l) ls) (if b then m0(k \<mapsto> v') else m0) =
       Inr (if b \<or> list_ex (sublist k) ls then m(k \<mapsto> v') else m)"
proof (induction ls arbitrary: m0 b)
  case Nil
  then show ?case by simp
next
  case (Cons l ls)
  from Cons.prems(1) have ok: "line_ok l" and oks: "list_all line_ok ls" by simp_all
  from line_ok_parse [OF ok] obtain n v where p: "parse_line l = Some (n, v)" by blast
  with Cons.prems(2) have ex: "exec_lines ls (m0(n \<mapsto> v)) = Inr m" by simp
  have key: "sublist k l \<longleftrightarrow> n = k" using line_ok_key [OF ok k] p by auto
  let ?f = "\<lambda>l. if sublist k l then nl else l"
  let ?M0 = "if b then m0(k \<mapsto> v') else m0"
  show ?case
  proof (cases "sublist k l")
    case True
    with key have n: "n = k" by simp
    have M: "?M0(k \<mapsto> v') = (m0(n \<mapsto> v))(k \<mapsto> v')" by (simp add: n)
    have "exec_lines (map ?f (l # ls)) ?M0 = exec_lines (map ?f ls) (?M0(k \<mapsto> v'))"
      using True nl by simp
    also have "\<dots> = exec_lines (map ?f ls) ((m0(n \<mapsto> v))(k \<mapsto> v'))" by (simp only: M)
    also have "\<dots> = Inr (m(k \<mapsto> v'))"
      using Cons.IH [OF oks ex, of True] by (simp only: if_True simp_thms)
    finally have "exec_lines (map ?f (l # ls)) ?M0 = Inr (m(k \<mapsto> v'))" .
    moreover have "(b \<or> list_ex (sublist k) (l # ls)) = True" using True by simp
    ultimately show ?thesis by (simp only: if_True)
  next
    case False
    with key have n: "n \<noteq> k" by simp
    have M: "?M0(n \<mapsto> v) = (if b then (m0(n \<mapsto> v))(k \<mapsto> v') else m0(n \<mapsto> v))"
      using n by (simp add: fun_upd_twist)
    have "exec_lines (map ?f (l # ls)) ?M0 = exec_lines (map ?f ls) (?M0(n \<mapsto> v))"
      using False p by simp
    also have "\<dots> = exec_lines (map ?f ls)
        (if b then (m0(n \<mapsto> v))(k \<mapsto> v') else m0(n \<mapsto> v))" by (simp only: M)
    also have "\<dots> = Inr (if b \<or> list_ex (sublist k) ls then m(k \<mapsto> v') else m)"
      by (rule Cons.IH [OF oks ex, of b])
    finally have "exec_lines (map ?f (l # ls)) ?M0 =
        Inr (if b \<or> list_ex (sublist k) ls then m(k \<mapsto> v') else m)" .
    moreover have "(b \<or> list_ex (sublist k) (l # ls)) = (b \<or> list_ex (sublist k) ls)"
      using False by simp
    ultimately show ?thesis by (simp only:)
  qed
qed

lemma line_ok_replace:
  "list_all line_ok ls \<Longrightarrow> line_ok nl \<Longrightarrow>
   list_all line_ok (map (\<lambda>l. if sublist k l then nl else l) ls)"
  by (induction ls) simp_all

lemma store_ok_concat:
  assumes "list_all line_ok ls"
  shows "readlines (concat ls) = ls" and "store_ok (concat ls)"
proof -
  from assms have "list_all proper ls" by (auto simp: list_all_iff intro: line_ok_proper)
  then show "readlines (concat ls) = ls" by (rule readlines_concat)
  with assms show "store_ok (concat ls)" by (simp add: store_ok_def)
qed

lemma dynamic_set_secret_lines:
  "dynamic_set_secret k v (Some c) =
     (normalised v \<noteq> None,
      Some (concat (if list_ex (sublist k) (readlines c)
                    then map (\<lambda>l. if sublist k l then secret_line k (normalised v) else l) (readlines c)
                    else map (\<lambda>l. if sublist k l then secret_line k (normalised v) else l) (readlines c)
                         @ [appended_line k (normalised v)])))"
  unfolding normalised_def by (simp add: dynamic_set_secret_def Let_def create_secrets_def)

lemma dynamic_set_secret_missing:
  "dynamic_set_secret k v None = dynamic_set_secret k v (Some baseline)"
  by (simp add: dynamic_set_secret_def create_secrets_def)

lemma appended_as_secret_line:
  "appended_line k v = secret_line k (Some (case v of None \<Rightarrow> ''None'' | Some s \<Rightarrow> s))"
  by (simp add: appended_line_def secret_line_def)

lemma plain_appended:
  assumes "plain_value v"
  shows "plain_value (Some (case v of None \<Rightarrow> ''None'' | Some s \<Rightarrow> s))"
proof (cases v)
  case None
  have "list_all lit_char ''None''" by (simp add: lit_char_def quote_def)
  moreover have "\<forall>k\<in>set store_keys. \<not> sublist k ''None''" using keys_not_in_none by blast
  ultimately show ?thesis using None by (simp add: plain_value_def list_all_iff)
next
  case (Some s)
  with assms show ?thesis by simp
qed

lemma set_secret_store:
  assumes ok: "store_ok c" and imp: "import_secrets (Some c) = Inr m"
    and k: "k \<in> set store_keys" and pv: "plain_value v"
  shows "\<exists>c'. dynamic_set_secret k v (Some c) = (normalised v \<noteq> None, Some c') \<and> store_ok c' \<and>
     import_secrets (Some c') =
       Inr (m(k \<mapsto> (if k \<in> dom m \<or> normalised v \<noteq> None then normalised v else Some ''None'')))"
proof -
  let ?v = "normalised v"
  let ?ls = "readlines c"
  let ?f = "\<lambda>l. if sublist k l then secret_line k ?v else l"
  let ?sv = "case ?v of None \<Rightarrow> ''None'' | Some s \<Rightarrow> s"
  from ok have oks: "list_all line_ok ?ls" by (simp add: store_ok_def)
  from imp have ex: "exec_lines ?ls Map.empty = Inr m" by (simp add: import_secrets_def)
  from pv have pn: "plain_value ?v" by (rule plain_normalised)
  note nl = line_ok_secret_line [OF k pn]
  have found: "list_ex (sublist k) ?ls \<longleftrightarrow> k \<in> dom m"
    using exec_lines_dom_key [OF oks k ex] by simp
  have rep_ok: "list_all line_ok (map ?f ?ls)" using oks nl(2) by (rule line_ok_replace)
  have rep_ex: "exec_lines (map ?f ?ls) Map.empty =
      Inr (if list_ex (sublist k) ?ls then m(k \<mapsto> ?v) else m)"
    using exec_lines_replace [OF nl(1) k oks ex, of False] by simp
  show ?thesis
  proof (cases "k \<in> dom m")
    case True
    with found have f: "list_ex (sublist k) ?ls" by simp
    let ?c' = "concat (map ?f ?ls)"
    have "dynamic_set_secret k v (Some c) = (?v \<noteq> None, Some ?c')"
      by (simp only: dynamic_set_secret_lines f if_True)
    moreover have "store_ok ?c'" using rep_ok by (rule store_ok_concat(2))
    moreover have "import_secrets (Some ?c') = Inr (m(k \<mapsto> ?v))"
      using rep_ex f by (simp add: import_secrets_def store_ok_concat(1) [OF rep_ok])
    ultimately show ?thesis using True by auto
  next
    case False
    with found have f: "\<not> list_ex (sublist k) ?ls" by simp
    let ?al = "appended_line k ?v"
    let ?c' = "concat (map ?f ?ls @ [?al])"
    note al = line_ok_secret_line [OF k plain_appended [OF pn], folded appended_as_secret_line]
    have all_ok: "list_all line_ok (map ?f ?ls @ [?al])" using rep_ok al(2) by simp
    have "dynamic_set_secret k v (Some c) = (?v \<noteq> None, Some ?c')"
      by (simp only: dynamic_set_secret_lines f if_False)
    moreover have "store_ok ?c'" using all_ok by (rule store_ok_concat(2))
    moreover have "import_secrets (Some ?c') = Inr (m(k \<mapsto> Some ?sv))"
    proof -
      have "import_secrets (Some ?c') = exec_lines (map ?f ?ls @ [?al]) Map.empty"
        by (simp only: import_secrets_def option.case store_ok_concat(1) [OF all_ok])
      also have "\<dots> = exec_lines [?al] m"
        using rep_ex f by (simp add: exec_lines_append)
      also have "\<dots> = Inr (m(k \<mapsto> Some ?sv))" using al(1) by simp
      finally show ?thesis .
    qed
    moreover have "Some ?sv = (if k \<in> dom m \<or> ?v \<noteq> None then ?v else Some ''None'')"
      using False by (cases ?v) simp_all
    ultimately show ?thesis by (auto simp only:)
  qed
qed

lemma store_key_names:
  "\<not> reserved_name ''WLAN_SSID''" "\<not> reserved_name ''WLAN_PASSWORD''"
  "\<not> reserved_name ''AP_SSID''" "\<not> reserved_name ''AP_PASSWORD''"
  by (simp_all add: reserved_name_def)

lemma get_from_import:
  "import_secrets f = Inr m \<Longrightarrow> \<not> reserved_name name \<Longrightarrow>
   dynamic_get_secret name f = Inr (normalised (case m name of None \<Rightarrow> None | Some v \<Rightarrow> v))"
  by (simp add: dynamic_get_secret_def normalised_def Let_def)

lemma get_import_error:
  "import_secrets f = Inl e \<Longrightarrow> dynamic_get_secret name f = Inl e"
  by (simp add: dynamic_get_secret_def)

lemma hex_digits_upper_all:
  "\<forall>n\<in>{..<16}. upper_char (''0123456789abcdef'' ! n) = ''0123456789ABCDEF'' ! n"
  by (simp add: lessThan_nat_numeral lessThan_Suc upper_char_def)

lemma hex_digit_upper:
  "n < 16 \<Longrightarrow> upper_char (''0123456789abcdef'' ! n) = ''0123456789ABCDEF'' ! n"
  using hex_digits_upper_all by blast

lemma byte_nibbles: "unat (b :: 8 word) div 16 < 16" "unat b mod 16 < 16"
proof -
  have "unat b < 2 ^ LENGTH(8)" by (rule unsigned_less)
  then show "unat b div 16 < 16" by simp
  show "unat b mod 16 < 16" by simp
qed

lemma upper_hexlify_Nil: "upper (hexlify []) = []"
  by (simp add: hexlify_def upper_def)

lemma upper_hexlify_Cons:
  "upper (hexlify (b # bs)) =
     ''0123456789ABCDEF'' ! (unat b div 16) # ''0123456789ABCDEF'' ! (unat b mod 16) #
     upper (hexlify bs)"
proof -
  have "upper (hexlify (b # bs)) =
      upper_char (''0123456789abcdef'' ! (unat b div 16)) #
      upper_char (''0123456789abcdef'' ! (unat b mod 16)) # upper (hexlify bs)"
    unfolding hexlify_def upper_def by (simp only: list.map concat.simps append_Cons append_Nil)
  then show ?thesis
    by (simp only: hex_digit_upper [OF byte_nibbles(1)] hex_digit_upper [OF byte_nibbles(2)])
qed

lemma hex_digit_mem:
  assumes "n < 16"
  shows "''0123456789ABCDEF'' ! n \<in> set ''0123456789ABCDEF''"
proof -
  have "n < length ''0123456789ABCDEF''" using assms by simp
  then show ?thesis by (rule nth_mem)
qed

lemma upper_hexlify_chars: "set (upper (hexlify bs)) \<subseteq> set ''0123456789ABCDEF''"
proof (induction bs)
  case Nil
  show ?case by (simp only: upper_hexlify_Nil list.set empty_subsetI)
next
  case (Cons b bs)
  define H where "H = set ''0123456789ABCDEF''"
  note a = hex_digit_mem [OF byte_nibbles(1), of b, folded H_def]
    and c = hex_digit_mem [OF byte_nibbles(2), of b, folded H_def]
  from Cons.IH have ih: "set (upper (hexlify bs)) \<subseteq> H" by (simp only: H_def)
  have "set (upper (hexlify (b # bs))) \<subseteq> H"
    using a c ih by (simp only: upper_hexlify_Cons list.set insert_subset simp_thms)
  then show ?case by (simp only: H_def)
qed

lemma upper_hexlify_length: "length (upper (hexlify bs)) = 2 * length bs"
  by (induction bs) (simp_all only: upper_hexlify_Nil upper_hexlify_Cons list.size, simp_all)

lemma store_key_underscore: "k \<in> set store_keys \<Longrightarrow> CHR ''_'' \<in> set k"
  unfolding store_keys_simps by auto

lemma plain_without_underscore:
  assumes "list_all lit_char s" "CHR ''_'' \<notin> set s"
  shows "plain_value (Some s)"
proof -
  have "\<not> sublist k s" if "k \<in> set store_keys" for k
    using store_key_underscore [OF that] set_mono_sublist [of k s] assms(2) by blast
  with assms(1) show ?thesis by (simp add: plain_value_def list_all_iff)
qed

lemma hex_lit: "c \<in> set ''0123456789ABCDEF'' \<Longrightarrow> lit_char c \<and> c \<noteq> CHR ''_''"
  by (auto simp: lit_char_def quote_def)

lemma plain_hex: "plain_value (Some (upper (hexlify bs)))"
proof (rule plain_without_underscore)
  show "list_all lit_char (upper (hexlify bs))"
    using upper_hexlify_chars [of bs] hex_lit by (auto simp only: list_all_iff)
  show "CHR ''_'' \<notin> set (upper (hexlify bs))"
    using upper_hexlify_chars [of bs] hex_lit by blast
qed

lemma plain_pico: "plain_value (Some (''PICO-W-'' @ upper (hexlify bs)))"
proof (rule plain_without_underscore)
  have p: "list_all lit_char ''PICO-W-''" by (simp add: lit_char_def quote_def)
  have "list_all lit_char (upper (hexlify bs))"
    using upper_hexlify_chars [of bs] hex_lit by (auto simp only: list_all_iff)
  with p show "list_all lit_char (''PICO-W-'' @ upper (hexlify bs))"
    by (simp only: list_all_append simp_thms)
  have "CHR ''_'' \<notin> set (upper (hexlify bs))"
    using upper_hexlify_chars [of bs] hex_lit by blast
  moreover have "CHR ''_'' \<notin> set ''PICO-W-''" by simp
  ultimately show "CHR ''_'' \<notin> set (''PICO-W-'' @ upper (hexlify bs))"
    by (simp only: set_append Un_iff simp_thms not_False_eq_True)
qed

lemma hex_nonempty: "bs \<noteq> [] \<Longrightarrow> upper (hexlify bs) \<noteq> []"
  using upper_hexlify_length [of bs] by (cases bs) auto

lemma get_view:
  "store_view w m \<Longrightarrow> \<not> reserved_name name \<Longrightarrow>
   dynamic_get_secret name (secrets_py w) = Inr (value_of m name)"
  by (auto simp: store_view_def value_of_def get_from_import split: option.splits)

lemma set_secret_frame [simp]:
  "radio (set_secret k v w) = radio w" "unique_id (set_secret k v w) = unique_id w"
  "radio_log (set_secret k v w) = radio_log w"
  by (simp_all add: set_secret_def)

lemma set_secret_view:
  assumes "store_view w m" "k \<in> set store_keys" "plain_value v"
  shows "store_view (set_secret k v w)
     (m(k \<mapsto> (if k \<in> dom m \<or> normalised v \<noteq> None then normalised v else Some ''None'')))"
proof -
  from assms(1) obtain c where c: "secrets_py w = Some c" "store_ok c"
    "import_secrets (Some c) = Inr m"
    by (auto simp: store_view_def split: option.splits)
  from set_secret_store [OF c(2) c(3) assms(2) assms(3)] obtain c' where
    "dynamic_set_secret k v (Some c) = (normalised v \<noteq> None, Some c')" "store_ok c'"
    "import_secrets (Some c') =
       Inr (m(k \<mapsto> (if k \<in> dom m \<or> normalised v \<noteq> None then normalised v else Some ''None'')))"
    by blast
  then show ?thesis by (simp add: store_view_def set_secret_def c(1))
qed

lemma set_secret_view_value:
  assumes "store_view w m" "k \<in> set store_keys" "plain_value (Some s)" "s \<noteq> []"
  shows "store_view (set_secret k (Some s) w) (m(k \<mapsto> Some s))"
  using set_secret_view [OF assms(1) assms(2) assms(3)] assms(4) by (simp add: normalised_def)

lemma set_secret_view_clear:
  assumes "store_view w m" "k \<in> set store_keys" "k \<in> dom m"
  shows "store_view (set_secret k None w) (m(k \<mapsto> None))"
proof -
  have "plain_value None" by (simp add: plain_value_def)
  from set_secret_view [OF assms(1) assms(2) this] assms(3) show ?thesis
    by (simp add: normalised_def)
qed

section \<open>The store that create_secrets writes\<close>

lemmas store_eval =
  store_ok_def line_ok_def parse_line_def parse_value_def is_identifier_def ident_char_def
  ident_start_def py_keywords_def lit_char_def newline_def quote_def store_keys_def sublist_code
  import_secrets_def

lemma baseline_ok: "store_ok baseline"
  by (simp add: baseline_def store_eval)

lemma baseline_import:
  "import_secrets (Some baseline) =
     Inr [''AP_SSID'' \<mapsto> None, ''AP_PASSWORD'' \<mapsto> None, ''WLAN_SSID'' \<mapsto> None,
          ''WLAN_PASSWORD'' \<mapsto> None, ''MQTT_ENDPOINT'' \<mapsto> None, ''MQTT_CLIENT_ID'' \<mapsto> None]"
  by (simp add: baseline_def store_eval)

section \<open>The example stores\<close>

lemma home_store_ok: "store_ok home_store"
  by (simp add: home_store_def store_eval)

lemma home_store_import:
  "import_secrets (Some home_store) =
     Inr [''AP_SSID'' \<mapsto> Some ''PICO-W-E66161234567890B'', ''AP_PASSWORD'' \<mapsto> Some ''E66161234567890B'',
          ''WLAN_SSID'' \<mapsto> Some ''HomeNet'', ''WLAN_PASSWORD'' \<mapsto> Some ''secret'',
          ''MQTT_ENDPOINT'' \<mapsto> None, ''MQTT_CLIENT_ID'' \<mapsto> None]"
  by (simp add: home_store_def store_eval)


lemmas set_eval =
  dynamic_set_secret_def dynamic_get_secret_def create_secrets_def secret_line_def
  appended_line_def baseline_def Let_def parse_line_def parse_value_def is_identifier_def
  ident_char_def ident_start_def py_keywords_def lit_char_def newline_def quote_def sublist_code
  import_secrets_def reserved_name_def unterminated_def code_char_def

lemma stale_store_ok: "store_ok stale_store"
  by (simp add: stale_store_def store_eval)

lemma stale_store_import:
  "import_secrets (Some stale_store) =
     Inr [''AP_SSID'' \<mapsto> Some ''PICO-W-E66161234567890B'', ''AP_PASSWORD'' \<mapsto> Some ''E66161234567890B'',
          ''WLAN_SSID'' \<mapsto> None, ''WLAN_PASSWORD'' \<mapsto> Some ''hunter2'',
          ''MQTT_ENDPOINT'' \<mapsto> None, ''MQTT_CLIENT_ID'' \<mapsto> None]"
  by (simp add: stale_store_def store_eval)

lemma baseline_view:
  "store_view (fresh_world (Some baseline) r)
     [''AP_SSID'' \<mapsto> None, ''AP_PASSWORD'' \<mapsto> None, ''WLAN_SSID'' \<mapsto> None,
      ''WLAN_PASSWORD'' \<mapsto> None, ''MQTT_ENDPOINT'' \<mapsto> None, ''MQTT_CLIENT_ID'' \<mapsto> None]"
  unfolding store_view_def fresh_world_def
  by (simp only: world.simps option.case baseline_ok baseline_import simp_thms)

lemma home_view:
  "store_view (fresh_world (Some home_store) r)
     [''AP_SSID'' \<mapsto> Some ''PICO-W-E66161234567890B'', ''AP_PASSWORD'' \<mapsto> Some ''E66161234567890B'',
      ''WLAN_SSID'' \<mapsto> Some ''HomeNet'', ''WLAN_PASSWORD'' \<mapsto> Some ''secret'',
      ''MQTT_ENDPOINT'' \<mapsto> None, ''MQTT_CLIENT_ID'' \<mapsto> None]"
  unfolding store_view_def fresh_world_def
  by (simp only: world.simps option.case home_store_ok home_store_import simp_thms)

lemma stale_view:
  "store_view (fresh_world (Some stale_store) r)
     [''AP_SSID'' \<mapsto> Some ''PICO-W-E66161234567890B'', ''AP_PASSWORD'' \<mapsto> Some ''E66161234567890B'',
      ''WLAN_SSID'' \<mapsto> None, ''WLAN_PASSWORD'' \<mapsto> Some ''hunter2'',
      ''MQTT_ENDPOINT'' \<mapsto> None, ''MQTT_CLIENT_ID'' \<mapsto> None]"
  unfolding store_view_def fresh_world_def
  by (simp only: world.simps option.case stale_store_ok stale_store_import simp_thms)

lemma fresh_world_id: "unique_id (fresh_world f r) \<noteq> []"
  by (simp add: fresh_world_def pico_id_def)

lemma pico_id_hex: "upper (hexlify pico_id) = ''E66161234567890B''"
  by (simp add: pico_id_def upper_def hexlify_def upper_char_def)

lemma ssidless_store_ok: "store_ok ssidless_store"
  by (simp add: ssidless_store_def store_eval)

lemma ssidless_store_import:
  "import_secrets (Some ssidless_store) =
     Inr [''AP_SSID'' \<mapsto> Some ''PICO-W-E66161234567890B'', ''AP_PASSWORD'' \<mapsto> Some ''E66161234567890B'',
          ''WLAN_PASSWORD'' \<mapsto> None, ''MQTT_ENDPOINT'' \<mapsto> None, ''MQTT_CLIENT_ID'' \<mapsto> None]"
  by (simp add: ssidless_store_def store_eval)

lemma ssidless_view:
  "store_view (fresh_world (Some ssidless_store) r)
     [''AP_SSID'' \<mapsto> Some ''PICO-W-E66161234567890B'', ''AP_PASSWORD'' \<mapsto> Some ''E66161234567890B'',
      ''WLAN_PASSWORD'' \<mapsto> None, ''MQTT_ENDPOINT'' \<mapsto> None, ''MQTT_CLIENT_ID'' \<mapsto> None]"
  unfolding store_view_def fresh_world_def
  by (simp only: world.simps option.case ssidless_store_ok ssidless_store_import simp_thms)

section \<open>The handler of POST /connection\<close>

lemma dynamic_set_secret_created:
  "dynamic_set_secret k v f = dynamic_set_secret k v (Some (create_secrets f))"
  by (cases f) (simp_all add: dynamic_set_secret_def create_secrets_def)

lemma dynamic_set_secret_flag: "fst (dynamic_set_secret k v f) = (normalised v \<noteq> None)"
  by (simp add: dynamic_set_secret_def Let_def normalised_def)

lemma set_connection_response:
  "fst (set_connection form f) =
     (if normalised (form ''input-ssid'') = None then \<lparr>valid = False, status_code = 400\<rparr>
      else \<lparr>valid = True, status_code = 205\<rparr>)"
proof -
  obtain b1 f1 where p: "dynamic_set_secret ''WLAN_PASSWORD'' (form ''input-password'') f = (b1, f1)"
    by (cases "dynamic_set_secret ''WLAN_PASSWORD'' (form ''input-password'') f")
  obtain b2 f2 where s: "dynamic_set_secret ''WLAN_SSID'' (form ''input-ssid'') f1 = (b2, f2)"
    by (cases "dynamic_set_secret ''WLAN_SSID'' (form ''input-ssid'') f1")
  from s have "b2 = (normalised (form ''input-ssid'') \<noteq> None)"
    using dynamic_set_secret_flag [of "''WLAN_SSID''" "form ''input-ssid''" f1] by simp
  with p s show ?thesis by (simp add: set_connection_def Let_def)
qed

lemma set_connection_file:
  "snd (set_connection form f) =
     snd (dynamic_set_secret ''WLAN_SSID'' (form ''input-ssid'')
            (snd (dynamic_set_secret ''WLAN_PASSWORD'' (form ''input-password'') f)))"
  by (simp add: set_connection_def Let_def split_beta)

lemma set_connection_store:
  assumes ok: "store_ok (create_secrets f)"
    and imp: "import_secrets (Some (create_secrets f)) = Inr m"
    and pw: "plain_value (form ''input-password'')"
    and ss: "plain_value (form ''input-ssid'')"
  shows "\<exists>c'. snd (set_connection form f) = Some c' \<and> store_ok c' \<and>
     import_secrets (Some c') =
       Inr (m(''WLAN_PASSWORD'' \<mapsto>
               (if ''WLAN_PASSWORD'' \<in> dom m \<or> normalised (form ''input-password'') \<noteq> None
                then normalised (form ''input-password'') else Some ''None''),
              ''WLAN_SSID'' \<mapsto>
               (if ''WLAN_SSID'' \<in> dom m \<or> normalised (form ''input-ssid'') \<noteq> None
                then normalised (form ''input-ssid'') else Some ''None'')))"
proof -
  have kp: "''WLAN_PASSWORD'' \<in> set store_keys" and ks: "''WLAN_SSID'' \<in> set store_keys"
    by (simp_all add: store_keys_def)
  let ?p = "if ''WLAN_PASSWORD'' \<in> dom m \<or> normalised (form ''input-password'') \<noteq> None
            then normalised (form ''input-password'') else Some ''None''"
  from set_secret_store [OF ok imp kp pw] obtain c1 where
    c1: "dynamic_set_secret ''WLAN_PASSWORD'' (form ''input-password'') (Some (create_secrets f)) =
           (normalised (form ''input-password'') \<noteq> None, Some c1)"
    "store_ok c1" "import_secrets (Some c1) = Inr (m(''WLAN_PASSWORD'' \<mapsto> ?p))"
    by blast
  have d: "''WLAN_SSID'' \<in> dom (m(''WLAN_PASSWORD'' \<mapsto> ?p)) \<longleftrightarrow> ''WLAN_SSID'' \<in> dom m"
    by simp
  from set_secret_store [OF c1(2) c1(3) ks ss] obtain c2 where
    c2: "dynamic_set_secret ''WLAN_SSID'' (form ''input-ssid'') (Some c1) =
           (normalised (form ''input-ssid'') \<noteq> None, Some c2)"
    "store_ok c2"
    "import_secrets (Some c2) =
       Inr ((m(''WLAN_PASSWORD'' \<mapsto> ?p))(''WLAN_SSID'' \<mapsto>
         (if ''WLAN_SSID'' \<in> dom (m(''WLAN_PASSWORD'' \<mapsto> ?p)) \<or>
             normalised (form ''input-ssid'') \<noteq> None
          then normalised (form ''input-ssid'') else Some ''None'')))"
    by blast
  have "snd (set_connection form f) = Some c2"
    unfolding set_connection_file
    by (subst dynamic_set_secret_created) (simp only: c1(1) c2(1) snd_conv)
  with c2(2) c2(3) show ?thesis by (simp only: d) blast
qed

section \<open>connection.py: what the calls leave alone\<close>

lemma kept_refl [simp]: "kept w w"
  by (simp add: kept_def)

lemma kept_trans: "kept w w1 \<Longrightarrow> kept w1 w2 \<Longrightarrow> kept w w2"
  by (simp add: kept_def)

lemma kept_call [simp]: "kept w (call WLAN c w)"
  by (simp add: kept_def)

lemma count_where_call [simp]:
  "count_where P (call WLAN c w) = count_where P w + (if P c then 1 else 0)"
  by (simp add: count_where_def)

lemma count_calls_where: "count_calls c w = count_where (\<lambda>x. x = c) w"
  by (simp add: count_calls_def count_where_def)

lemma store_view_kept: "kept w w' \<Longrightarrow> store_view w m \<Longrightarrow> store_view w' m"
  by (simp add: kept_def store_view_def)

lemma await_active_quiet:
  assumes "\<And>c. is_poll c \<Longrightarrow> \<not> P c"
  shows "kept w (res_world (await_active WLAN n w)) \<and>
         count_where P (res_world (await_active WLAN n w)) = count_where P w"
proof (induction n arbitrary: w)
  case 0
  show ?case by (simp add: res_world_def)
next
  case (Suc n)
  have np: "\<not> P Status" "\<not> P Active" "\<not> P Sleep" using assms by (simp_all add: is_poll_def)
  let ?w = "sleep WLAN (call WLAN Active (call WLAN Status w))"
  have k: "kept w ?w" "count_where P ?w = count_where P w"
    using np by (simp_all add: sleep_def kept_def)
  from Suc.IH [of ?w] k have "kept w (res_world (await_active WLAN n ?w)) \<and>
      count_where P (res_world (await_active WLAN n ?w)) = count_where P w"
    using kept_trans by auto
  then show ?case
    using np by (simp add: wlan_status_def wlan_active_def Let_def res_world_def kept_def)
qed

lemma await_inactive_quiet:
  assumes "\<And>c. is_poll c \<Longrightarrow> \<not> P c"
  shows "kept w (res_world (await_inactive WLAN n w)) \<and>
         count_where P (res_world (await_inactive WLAN n w)) = count_where P w"
proof (induction n arbitrary: w)
  case 0
  show ?case by (simp add: res_world_def)
next
  case (Suc n)
  have np: "\<not> P Active" "\<not> P Sleep" using assms by (simp_all add: is_poll_def)
  let ?w = "sleep WLAN (call WLAN Active w)"
  have k: "kept w ?w" "count_where P ?w = count_where P w"
    using np by (simp_all add: sleep_def kept_def)
  from Suc.IH [of ?w] k have "kept w (res_world (await_inactive WLAN n ?w)) \<and>
      count_where P (res_world (await_inactive WLAN n ?w)) = count_where P w"
    using kept_trans by auto
  then show ?case
    using np by (simp add: wlan_active_def Let_def res_world_def kept_def)
qed

lemma activate_interface_quiet:
  "\<exists>w'. activate_interface WLAN w = Inr ((), w') \<and> kept w w' \<and>
        (\<forall>P. (\<forall>c. is_poll c \<longrightarrow> \<not> P c) \<longrightarrow> count_where P w' = count_where P w)"
proof -
  obtain w' where ret: "activate_interface WLAN w = Inr ((), w')"
    using activate_interface_returns by blast
  let ?w = "call WLAN (SetActive True) w"
  from activate_interface_loop [OF ret] have rw: "res_world (await_active WLAN 5 ?w) = w'"
    by (auto simp: res_world_def)
  have "kept w w'" using await_active_quiet [of "\<lambda>c. False" ?w WLAN 5] rw kept_trans [of w ?w w']
    by simp
  moreover have "count_where P w' = count_where P w" if "\<forall>c. is_poll c \<longrightarrow> \<not> P c" for P
  proof -
    from that have "\<not> P (SetActive True)" by (simp add: is_poll_def)
    with await_active_quiet [of P ?w WLAN 5] that rw show ?thesis by simp
  qed
  ultimately show ?thesis using ret by blast
qed

lemma deactivate_interface_quiet:
  "\<exists>w'. deactivate_interface WLAN w = Inr ((), w') \<and> kept w w' \<and>
        (\<forall>P. (\<forall>c. is_poll c \<longrightarrow> \<not> P c) \<longrightarrow> count_where P w' = count_where P w)"
proof -
  obtain w' where ret: "deactivate_interface WLAN w = Inr ((), w')"
    using deactivate_interface_returns by blast
  let ?w = "call WLAN (SetActive False) w"
  from deactivate_interface_loop [OF ret] have rw: "res_world (await_inactive WLAN 5 ?w) = w'"
    by (auto simp: res_world_def)
  have "kept w w'" using await_inactive_quiet [of "\<lambda>c. False" ?w WLAN 5] rw kept_trans [of w ?w w']
    by simp
  moreover have "count_where P w' = count_where P w" if "\<forall>c. is_poll c \<longrightarrow> \<not> P c" for P
  proof -
    from that have "\<not> P (SetActive False)" by (simp add: is_poll_def)
    with await_inactive_quiet [of P ?w WLAN 5] that rw show ?thesis by simp
  qed
  ultimately show ?thesis using ret by blast
qed

lemma access_point_reset_ok:
  assumes a: "dynamic_get_secret ''AP_SSID'' (secrets_py w) = Inr (Some a)"
    and p: "dynamic_get_secret ''AP_PASSWORD'' (secrets_py w) = Inr (Some p)"
  shows "\<exists>w'. access_point_reset WLAN w =
           Inr ((\<lparr>if_mode = AP_IF, cfg_ssid = Some a, cfg_password = Some p\<rparr>, AP_IF), w') \<and>
         kept w w' \<and>
         (\<forall>P. (\<forall>c. is_poll c \<longrightarrow> \<not> P c) \<longrightarrow>
            count_where P w' = count_where P w + (if P Disconnect then 1 else 0) +
              (if P Deinit then 1 else 0) + (if P New then 1 else 0) +
              (if P (Config (Some a) (Some p)) then 1 else 0))"
proof -
  let ?blank = "\<lparr>if_mode = AP_IF, cfg_ssid = None, cfg_password = None\<rparr>"
  let ?ap = "\<lparr>if_mode = AP_IF, cfg_ssid = Some a, cfg_password = Some p\<rparr>"
  let ?wa = "call WLAN Disconnect w"
  from deactivate_interface_quiet [of WLAN ?wa] obtain w1 where
    d: "deactivate_interface WLAN ?wa = Inr ((), w1)" and k1: "kept ?wa w1" and
    c1: "\<And>P. (\<forall>c. is_poll c \<longrightarrow> \<not> P c) \<Longrightarrow> count_where P w1 = count_where P ?wa"
    by blast
  let ?wb = "call ?blank New (call WLAN Deinit w1)"
  let ?wc = "call ?blank (Config (Some a) (Some p)) ?wb"
  have k2: "kept w ?wc" using k1 by (simp add: kept_def)
  then have s2: "secrets_py ?wb = secrets_py w" by (simp add: kept_def)
  from activate_interface_quiet [of ?ap ?wc] obtain w4 where
    act: "activate_interface ?ap ?wc = Inr ((), w4)" and k4: "kept ?wc w4" and
    c4: "\<And>P. (\<forall>c. is_poll c \<longrightarrow> \<not> P c) \<Longrightarrow> count_where P w4 = count_where P ?wc"
    by blast
  have n: "new_wlan AP_IF (call WLAN Deinit w1) = (?blank, ?wb)"
    unfolding new_wlan_def Let_def by (rule refl)
  have cfg: "wlan_config ?blank (Some a) (Some p) ?wb = Inr (?ap, ?wc)"
    by (simp add: wlan_config_def)
  have "access_point_reset WLAN w = Inr ((?ap, AP_IF), w4)"
    unfolding access_point_reset_def
    by (simp only: d n cfg act a p s2 sum.case prod.case Let_def)
  moreover have "kept w w4" using k2 k4 by (rule kept_trans)
  moreover have "count_where P w4 = count_where P w + (if P Disconnect then 1 else 0) +
      (if P Deinit then 1 else 0) + (if P New then 1 else 0) +
      (if P (Config (Some a) (Some p)) then 1 else 0)"
    if "\<forall>c. is_poll c \<longrightarrow> \<not> P c" for P
    using c4 [OF that] c1 [OF that] by simp
  ultimately show ?thesis by blast
qed

lemma get_nonempty: "dynamic_get_secret k f = Inr (Some s) \<Longrightarrow> s \<noteq> []"
  by (auto simp: dynamic_get_secret_def Let_def split: sum.splits if_splits)

lemma connect_interface_no_credentials:
  assumes "dynamic_get_secret ''WLAN_SSID'' (secrets_py w) = Inr None"
    and "dynamic_get_secret ''WLAN_PASSWORD'' (secrets_py w) = Inr pw"
  shows "connect_interface WLAN w = Inl (WLANConnectionError, w)"
  unfolding connect_interface_def by (simp only: assms sum.case option.case)

lemma available_networks_decoded:
  "Undecodable \<notin> set found \<Longrightarrow>
   \<exists>names. available_networks found = Inr names \<and>
     set names = {s. Decodable s \<in> set found \<and> s \<noteq> []}"
proof (induction found)
  case Nil
  show ?case by simp
next
  case (Cons name rest)
  then obtain names where r: "available_networks rest = Inr names"
    "set names = {s. Decodable s \<in> set rest \<and> s \<noteq> []}"
    by auto
  from Cons.prems obtain s where n: "name = Decodable s" by (cases name) auto
  show ?case using r by (auto simp: n)
qed

lemma available_networks_garbled:
  "Undecodable \<in> set found \<Longrightarrow> available_networks found = Inl UnicodeError"
proof (induction found)
  case Nil
  then show ?case by simp
next
  case (Cons name rest)
  show ?case
  proof (cases name)
    case (Decodable s)
    with Cons show ?thesis by simp
  next
    case Undecodable
    then show ?thesis by simp
  qed
qed

lemma connect_interface_unavailable:
  assumes "dynamic_get_secret ''WLAN_SSID'' (secrets_py w) = Inr (Some s)"
    and "dynamic_get_secret ''WLAN_PASSWORD'' (secrets_py w) = Inr pw"
    and "r_scan (now w) = Inr found" and "Undecodable \<notin> set found"
    and "Decodable s \<notin> set found"
  shows "connect_interface WLAN w = Inl (WLANConnectionError, call WLAN Scan w)"
proof -
  have sc: "wlan_scan WLAN w = Inr (found, call WLAN Scan w)"
    by (simp add: wlan_scan_def assms(3))
  from available_networks_decoded [OF assms(4)] obtain names where
    an: "available_networks found = Inr names"
    and sn: "set names = {s. Decodable s \<in> set found \<and> s \<noteq> []}"
    by (elim exE conjE)
  have "s \<notin> set names" using assms(5) by (simp add: sn)
  then show ?thesis
    unfolding connect_interface_def
    by (simp only: assms(1) assms(2) sc an sum.case option.case prod.case if_True simp_thms)
qed

lemma connect_interface_garbled:
  assumes "dynamic_get_secret ''WLAN_SSID'' (secrets_py w) = Inr (Some s)"
    and "dynamic_get_secret ''WLAN_PASSWORD'' (secrets_py w) = Inr pw"
    and "r_scan (now w) = Inr found" and "Undecodable \<in> set found"
  shows "connect_interface WLAN w = Inl (UnicodeError, call WLAN Scan w)"
proof -
  have sc: "wlan_scan WLAN w = Inr (found, call WLAN Scan w)"
    by (simp add: wlan_scan_def assms(3))
  have h: "connect_handler UnicodeError = UnicodeError" by (simp add: connect_handler_def)
  show ?thesis
    unfolding connect_interface_def
    by (simp only: assms(1) assms(2) sc available_networks_garbled [OF assms(4)] h
        sum.case option.case prod.case)
qed

lemma await_connection_exhausted:
  "\<forall>j<n. \<not> reports_connected w (length (radio_log w) + 4 * j) \<Longrightarrow>
   \<exists>w'. await_connection WLAN n w = Inl (StopIteration, w') \<and> kept w w' \<and>
        length (radio_log w') = length (radio_log w) + 4 * n \<and>
        count_calls IsConnected w' = count_calls IsConnected w + n \<and>
        (\<forall>P. (\<forall>c. is_poll c \<or> c = IsConnected \<longrightarrow> \<not> P c) \<longrightarrow> count_where P w' = count_where P w)"
proof (induction n arbitrary: w)
  case 0
  then show ?case by simp
next
  case (Suc n)
  let ?w = "sleep WLAN (call WLAN IsConnected (call WLAN Status (call WLAN Status w)))"
  from Suc.prems have "\<not> reports_connected w (length (radio_log w))"
    by (metis add.right_neutral mult_0_right zero_less_Suc)
  then have step: "await_connection WLAN (Suc n) w = await_connection WLAN n ?w"
    by (auto simp: reports_connected_def wlan_status_def wlan_isconnected_def now_def Let_def)
  have len: "length (radio_log ?w) = length (radio_log w) + 4" by (simp add: sleep_def)
  have rad: "radio ?w = radio w" by (simp add: sleep_def)
  have k: "kept w ?w" by (simp add: sleep_def kept_def)
  have b: "\<forall>j<n. \<not> reports_connected ?w (length (radio_log ?w) + 4 * j)"
  proof (intro allI impI)
    fix j assume "j < n"
    then have "\<not> reports_connected w (length (radio_log w) + 4 * Suc j)"
      using Suc.prems by (meson Suc_mono)
    then show "\<not> reports_connected ?w (length (radio_log ?w) + 4 * j)"
      by (simp add: len reports_connected_def rad add.commute add.left_commute)
  qed
  from Suc.IH [OF b] obtain w' where
    r: "await_connection WLAN n ?w = Inl (StopIteration, w')" "kept ?w w'"
    "length (radio_log w') = length (radio_log ?w) + 4 * n"
    "count_calls IsConnected w' = count_calls IsConnected ?w + n"
    "\<And>P. (\<forall>c. is_poll c \<or> c = IsConnected \<longrightarrow> \<not> P c) \<Longrightarrow> count_where P w' = count_where P ?w"
    by blast
  have "count_where P w' = count_where P w" if h: "\<forall>c. is_poll c \<or> c = IsConnected \<longrightarrow> \<not> P c" for P
  proof -
    from h have "\<not> P Status" "\<not> P Sleep" "\<not> P IsConnected" by (simp_all add: is_poll_def)
    with r(5) [OF h] show ?thesis by (simp add: sleep_def)
  qed
  moreover have "kept w w'" using k r(2) by (rule kept_trans)
  moreover have "length (radio_log w') = length (radio_log w) + 4 * Suc n"
    using r(3) len by simp
  moreover have "count_calls IsConnected w' = count_calls IsConnected w + Suc n"
    using r(4) by (simp add: sleep_def)
  ultimately show ?case using step r(1) by auto
qed

lemma connect_interface_timeout:
  assumes s: "dynamic_get_secret ''WLAN_SSID'' (secrets_py w) = Inr (Some s)"
    and p: "dynamic_get_secret ''WLAN_PASSWORD'' (secrets_py w) = Inr pw"
    and sc: "r_scan (now w) = Inr found" and dec: "Undecodable \<notin> set found"
    and vis: "Decodable s \<in> set found"
    and co: "r_connect (radio w (Suc (length (radio_log w)))) = None"
    and no: "\<forall>j<30. \<not> reports_connected w (length (radio_log w) + 2 + 4 * j)"
  shows "\<exists>w'. connect_interface WLAN w = Inl (StopIteration, w') \<and> kept w w' \<and>
     count_calls IsConnected w' = count_calls IsConnected w + 30 \<and>
     count_calls Scan w' = count_calls Scan w + 1 \<and>
     count_where is_connect w' = count_where is_connect w + 1 \<and>
     count_calls Deinit w' = count_calls Deinit w"
proof -
  let ?wa = "call WLAN Scan w"
  let ?wb = "call WLAN (Connect s pw) ?wa"
  have scan: "wlan_scan WLAN w = Inr (found, ?wa)" by (simp add: wlan_scan_def sc)
  from available_networks_decoded [OF dec] obtain names where
    an: "available_networks found = Inr names"
    and sn: "set names = {s. Decodable s \<in> set found \<and> s \<noteq> []}"
    by (elim exE conjE)
  have conn: "wlan_connect WLAN s pw ?wa = Inr ((), ?wb)"
    using co by (simp add: wlan_connect_def now_def)
  from get_nonempty [OF s] vis have mem: "\<not> s \<notin> set names" by (simp add: sn)
  have "\<forall>j<30. \<not> reports_connected ?wb (length (radio_log ?wb) + 4 * j)"
    using no by (simp add: reports_connected_def add.commute add.left_commute)
  from await_connection_exhausted [OF this, of WLAN] obtain wc where
    r: "await_connection WLAN 30 ?wb = Inl (StopIteration, wc)" "kept ?wb wc"
    "count_calls IsConnected wc = count_calls IsConnected ?wb + 30"
    "\<And>P. (\<forall>c. is_poll c \<or> c = IsConnected \<longrightarrow> \<not> P c) \<Longrightarrow> count_where P wc = count_where P ?wb"
    by blast
  let ?wd = "snd (wlan_status WLAN wc)"
  have wd: "?wd = call WLAN Status wc" by (simp add: wlan_status_def)
  have "connect_interface WLAN w = Inl (StopIteration, ?wd)"
    unfolding connect_interface_def
    by (simp only: s p scan an conn r(1) mem sum.case option.case prod.case if_True if_False simp_thms)
  moreover have "kept w ?wd" using r(2) by (simp add: wd kept_def)
  moreover have "count_calls IsConnected ?wd = count_calls IsConnected w + 30"
    using r(3) by (simp add: wd count_calls_where)
  moreover have "count_calls Scan ?wd = count_calls Scan w + 1"
  proof -
    have "\<forall>c. is_poll c \<or> c = IsConnected \<longrightarrow> \<not> c = Scan"
      by (auto simp: is_poll_def)
    from r(4) [OF this] show ?thesis by (simp add: wd count_calls_where)
  qed
  moreover have "count_where is_connect ?wd = count_where is_connect w + 1"
  proof -
    have "\<forall>c. is_poll c \<or> c = IsConnected \<longrightarrow> \<not> is_connect c"
      by (auto simp: is_poll_def is_connect_def split: radio_call.splits)
    moreover have "is_connect (Connect s pw)" "\<not> is_connect Scan" "\<not> is_connect Status"
      by (simp_all add: is_connect_def)
    ultimately show ?thesis using r(4) [of is_connect] by (simp add: wd)
  qed
  moreover have "count_calls Deinit ?wd = count_calls Deinit w"
  proof -
    have "\<forall>c. is_poll c \<or> c = IsConnected \<longrightarrow> \<not> c = Deinit"
      by (auto simp: is_poll_def)
    from r(4) [OF this] show ?thesis by (simp add: wd count_calls_where)
  qed
  ultimately show ?thesis by blast
qed

lemma value_of_upd [simp]:
  "value_of (m(k \<mapsto> v)) k' = (if k' = k then normalised v else value_of m k')"
  by (simp add: value_of_def)

lemma kept_set_secret_log [simp]: "count_where P (set_secret k v w) = count_where P w"
  by (simp add: count_where_def)

lemma ap_stage:
  assumes sv: "store_view w m" and id: "unique_id w \<noteq> []"
  shows "\<exists>a p m1.
     (if value_of m ''AP_SSID'' = None \<or> value_of m ''AP_PASSWORD'' = None
      then Some (''PICO-W-'' @ upper (hexlify (unique_id w))) else value_of m ''AP_SSID'') = Some a \<and>
     (if value_of m ''AP_SSID'' = None \<or> value_of m ''AP_PASSWORD'' = None
      then Some (upper (hexlify (unique_id w))) else value_of m ''AP_PASSWORD'') = Some p \<and>
     store_view
       (if value_of m ''AP_SSID'' = None \<or> value_of m ''AP_PASSWORD'' = None
        then set_secret ''AP_PASSWORD'' (Some p) (set_secret ''AP_SSID'' (Some a) w) else w) m1 \<and>
     value_of m1 ''AP_SSID'' = Some a \<and> value_of m1 ''AP_PASSWORD'' = Some p \<and>
     (\<forall>k. k \<noteq> ''AP_SSID'' \<and> k \<noteq> ''AP_PASSWORD'' \<longrightarrow> m1 k = m k)"
proof (cases "value_of m ''AP_SSID'' = None \<or> value_of m ''AP_PASSWORD'' = None")
  case True
  let ?hex = "upper (hexlify (unique_id w))"
  let ?pico = "''PICO-W-'' @ ?hex"
  have ka: "''AP_SSID'' \<in> set store_keys" and kp: "''AP_PASSWORD'' \<in> set store_keys"
    by (simp_all add: store_keys_def)
  have hne: "?hex \<noteq> []" using id by (rule hex_nonempty)
  have pne: "?pico \<noteq> []" by simp
  note v1 = set_secret_view_value [OF sv ka plain_pico pne]
  note v2 = set_secret_view_value [OF v1 kp plain_hex hne]
  let ?m1 = "m(''AP_SSID'' \<mapsto> Some ?pico, ''AP_PASSWORD'' \<mapsto> Some ?hex)"
  have "value_of ?m1 ''AP_SSID'' = Some ?pico" "value_of ?m1 ''AP_PASSWORD'' = Some ?hex"
    using hne by (simp_all add: normalised_def)
  moreover have "\<forall>k. k \<noteq> ''AP_SSID'' \<and> k \<noteq> ''AP_PASSWORD'' \<longrightarrow> ?m1 k = m k" by simp
  ultimately show ?thesis using True v2 by (intro exI [of _ ?pico] exI [of _ ?hex] exI [of _ ?m1]) simp
next
  case False
  then obtain a p where "value_of m ''AP_SSID'' = Some a" "value_of m ''AP_PASSWORD'' = Some p"
    by auto
  with False sv show ?thesis by (intro exI [of _ a] exI [of _ p] exI [of _ m]) simp
qed

lemma select_interface_tail:
  assumes gets: "dynamic_get_secret ''WLAN_SSID'' (secrets_py w) = Inr s0"
      "dynamic_get_secret ''WLAN_PASSWORD'' (secrets_py w) = Inr pw0"
      "dynamic_get_secret ''AP_SSID'' (secrets_py w) = Inr a0"
      "dynamic_get_secret ''AP_PASSWORD'' (secrets_py w) = Inr p0"
    and a: "(if a0 = None \<or> p0 = None
             then Some (''PICO-W-'' @ upper (hexlify (unique_id w))) else a0) = Some a"
    and p: "(if a0 = None \<or> p0 = None then Some (upper (hexlify (unique_id w))) else p0) = Some p"
    and w1: "w1 = (if a0 = None \<or> p0 = None
                   then set_secret ''AP_PASSWORD'' (Some p) (set_secret ''AP_SSID'' (Some a) w) else w)"
    and w2: "w2 = (if (case s0 of None \<Rightarrow> True | Some s \<Rightarrow> length s < 1)
                   then set_secret ''WLAN_PASSWORD'' None (set_secret ''WLAN_SSID'' None w1) else w1)"
    and mode: "mode = (if (case s0 of None \<Rightarrow> True | Some s \<Rightarrow> length s < 1) then AP_IF else STA_IF)"
  shows "\<exists>w5. select_interface w =
            Inr ((\<lparr>if_mode = mode, cfg_ssid = Some a, cfg_password = Some p\<rparr>, mode), w5) \<and>
          secrets_py w5 = secrets_py w2 \<and> radio w5 = radio w \<and> unique_id w5 = unique_id w \<and>
          (\<forall>P. (\<forall>c. is_poll c \<longrightarrow> \<not> P c) \<longrightarrow>
             count_where P w5 = count_where P w + (if P New then 1 else 0) +
               (if P (Config (Some a) (Some p)) then 1 else 0))"
proof -
  let ?blank = "\<lparr>if_mode = mode, cfg_ssid = None, cfg_password = None\<rparr>"
  let ?wlan = "\<lparr>if_mode = mode, cfg_ssid = Some a, cfg_password = Some p\<rparr>"
  let ?wc = "call ?blank (Config (Some a) (Some p)) (call ?blank New w2)"
  have n: "new_wlan mode w2 = (?blank, call ?blank New w2)"
    unfolding new_wlan_def Let_def by (rule refl)
  have cfg: "wlan_config ?blank (Some a) (Some p) (call ?blank New w2) = Inr (?wlan, ?wc)"
    by (simp add: wlan_config_def)
  from activate_interface_quiet [of ?wlan ?wc] obtain w5 where
    act: "activate_interface ?wlan ?wc = Inr ((), w5)" and k5: "kept ?wc w5" and
    c5: "\<And>P. (\<forall>c. is_poll c \<longrightarrow> \<not> P c) \<Longrightarrow> count_where P w5 = count_where P ?wc"
    by blast
  have "select_interface w = Inr ((?wlan, mode), w5)"
    unfolding select_interface_def
    by (simp only: gets sum.case Let_def a p w1 [symmetric] w2 [symmetric] mode [symmetric]
        n cfg act prod.case)
  moreover have "secrets_py w5 = secrets_py w2" "radio w5 = radio w" "unique_id w5 = unique_id w"
    using k5 by (simp_all add: kept_def w1 w2)
  moreover have "count_where P w5 = count_where P w + (if P New then 1 else 0) +
               (if P (Config (Some a) (Some p)) then 1 else 0)"
    if "\<forall>c. is_poll c \<longrightarrow> \<not> P c" for P
    using c5 [OF that] by (simp add: w1 w2)
  ultimately show ?thesis by blast
qed

lemma store_view_secrets: "secrets_py w' = secrets_py w \<Longrightarrow> store_view w m \<Longrightarrow> store_view w' m"
  by (simp add: store_view_def)

lemma count_calls_reset:
  assumes "\<forall>P. (\<forall>c. is_poll c \<longrightarrow> \<not> P c) \<longrightarrow>
            count_where P w' = count_where P w + (if P Disconnect then 1 else 0) +
              (if P Deinit then 1 else 0) + (if P New then 1 else 0) +
              (if P (Config (Some a) (Some p)) then 1 else 0)"
  shows "count_calls Scan w' = count_calls Scan w" "count_where is_connect w' = count_where is_connect w"
    "count_calls Deinit w' = count_calls Deinit w + 1"
proof -
  have 1: "\<forall>c. is_poll c \<longrightarrow> \<not> (\<lambda>x. x = Scan) c" by (auto simp: is_poll_def)
  have 2: "\<forall>c. is_poll c \<longrightarrow> \<not> is_connect c"
    by (auto simp: is_poll_def is_connect_def split: radio_call.splits)
  have 3: "\<forall>c. is_poll c \<longrightarrow> \<not> (\<lambda>x. x = Deinit) c" by (auto simp: is_poll_def)
  have ic: "\<not> is_connect Disconnect" "\<not> is_connect Deinit" "\<not> is_connect New"
    "\<not> is_connect (Config (Some a) (Some p))" by (simp_all add: is_connect_def)
  from assms [THEN spec, of "\<lambda>x. x = Scan", THEN mp, OF 1] show "count_calls Scan w' = count_calls Scan w"
    by (simp add: count_calls_where)
  from assms [THEN spec, of is_connect, THEN mp, OF 2] ic show "count_where is_connect w' = count_where is_connect w"
    by simp
  from assms [THEN spec, of "\<lambda>x. x = Deinit", THEN mp, OF 3] show "count_calls Deinit w' = count_calls Deinit w + 1"
    by (simp add: count_calls_where)
qed

lemma count_calls_select:
  assumes "\<forall>P. (\<forall>c. is_poll c \<longrightarrow> \<not> P c) \<longrightarrow>
            count_where P w' = count_where P w + (if P New then 1 else 0) +
              (if P (Config (Some a) (Some p)) then 1 else 0)"
  shows "count_calls Scan w' = count_calls Scan w" "count_where is_connect w' = count_where is_connect w"
    "count_calls Deinit w' = count_calls Deinit w"
proof -
  have 1: "\<forall>c. is_poll c \<longrightarrow> \<not> (\<lambda>x. x = Scan) c" by (auto simp: is_poll_def)
  have 2: "\<forall>c. is_poll c \<longrightarrow> \<not> is_connect c"
    by (auto simp: is_poll_def is_connect_def split: radio_call.splits)
  have 3: "\<forall>c. is_poll c \<longrightarrow> \<not> (\<lambda>x. x = Deinit) c" by (auto simp: is_poll_def)
  have ic: "\<not> is_connect New" "\<not> is_connect (Config (Some a) (Some p))"
    by (simp_all add: is_connect_def)
  from assms [THEN spec, of "\<lambda>x. x = Scan", THEN mp, OF 1] show "count_calls Scan w' = count_calls Scan w"
    by (simp add: count_calls_where)
  from assms [THEN spec, of is_connect, THEN mp, OF 2] ic show "count_where is_connect w' = count_where is_connect w"
    by simp
  from assms [THEN spec, of "\<lambda>x. x = Deinit", THEN mp, OF 3] show "count_calls Deinit w' = count_calls Deinit w"
    by (simp add: count_calls_where)
qed

lemma acquire_unset:
  assumes sv: "store_view w m" and ss: "value_of m ''WLAN_SSID'' = None"
    and d1: "''WLAN_SSID'' \<in> dom m" and d2: "''WLAN_PASSWORD'' \<in> dom m"
    and id: "unique_id w \<noteq> []"
  shows "\<exists>a p w' m'. get_network_interface w =
       Inr ((\<lparr>if_mode = AP_IF, cfg_ssid = Some a, cfg_password = Some p\<rparr>, AP_IF), w') \<and>
     store_view w' m' \<and> m' ''WLAN_SSID'' = Some None \<and> m' ''WLAN_PASSWORD'' = Some None \<and>
     value_of m' ''AP_SSID'' = Some a \<and> value_of m' ''AP_PASSWORD'' = Some p \<and>
     (if value_of m ''AP_SSID'' = None \<or> value_of m ''AP_PASSWORD'' = None
      then Some (''PICO-W-'' @ upper (hexlify (unique_id w))) else value_of m ''AP_SSID'') = Some a \<and>
     (if value_of m ''AP_SSID'' = None \<or> value_of m ''AP_PASSWORD'' = None
      then Some (upper (hexlify (unique_id w))) else value_of m ''AP_PASSWORD'') = Some p \<and>
     count_calls Scan w' = count_calls Scan w \<and>
     count_where is_connect w' = count_where is_connect w \<and>
     count_calls Deinit w' = count_calls Deinit w + 1"
proof -
  let ?g = "value_of m ''AP_SSID'' = None \<or> value_of m ''AP_PASSWORD'' = None"
  from ap_stage [OF sv id] obtain a p m1 where
    A: "(if ?g then Some (''PICO-W-'' @ upper (hexlify (unique_id w))) else value_of m ''AP_SSID'') = Some a"
    and B: "(if ?g then Some (upper (hexlify (unique_id w))) else value_of m ''AP_PASSWORD'') = Some p"
    and C: "store_view (if ?g then set_secret ''AP_PASSWORD'' (Some p) (set_secret ''AP_SSID'' (Some a) w)
                        else w) m1"
    and va: "value_of m1 ''AP_SSID'' = Some a" and vp: "value_of m1 ''AP_PASSWORD'' = Some p"
    and fr: "\<forall>k. k \<noteq> ''AP_SSID'' \<and> k \<noteq> ''AP_PASSWORD'' \<longrightarrow> m1 k = m k"
    by (elim exE conjE) (rule that; assumption)
  define w1 where "w1 = (if ?g then set_secret ''AP_PASSWORD'' (Some p) (set_secret ''AP_SSID'' (Some a) w)
                         else w)"
  define w2 where "w2 = set_secret ''WLAN_PASSWORD'' None (set_secret ''WLAN_SSID'' None w1)"
  let ?m2 = "m1(''WLAN_SSID'' \<mapsto> None, ''WLAN_PASSWORD'' \<mapsto> None)"
  have ks: "''WLAN_SSID'' \<in> set store_keys" and kp: "''WLAN_PASSWORD'' \<in> set store_keys"
    by (simp_all add: store_keys_def)
  from C have sv1: "store_view w1 m1" by (simp only: w1_def)
  have "m1 ''WLAN_SSID'' = m ''WLAN_SSID''" "m1 ''WLAN_PASSWORD'' = m ''WLAN_PASSWORD''"
    using fr by simp_all
  with d1 d2 have e1: "''WLAN_SSID'' \<in> dom m1"
    and e2: "''WLAN_PASSWORD'' \<in> dom (m1(''WLAN_SSID'' \<mapsto> None))" by auto
  note sv1' = set_secret_view_clear [OF sv1 ks e1]
  from set_secret_view_clear [OF sv1' kp e2] have sv2: "store_view w2 ?m2" by (simp only: w2_def)
  note g = store_key_names [THEN get_view [OF sv]]
  have w2': "w2 = (if (case value_of m ''WLAN_SSID'' of None \<Rightarrow> True | Some s \<Rightarrow> length s < 1)
       then set_secret ''WLAN_PASSWORD'' None (set_secret ''WLAN_SSID'' None w1) else w1)"
    by (simp add: ss w2_def)
  have mode: "AP_IF = (if (case value_of m ''WLAN_SSID'' of None \<Rightarrow> True | Some s \<Rightarrow> length s < 1)
       then AP_IF else STA_IF)"
    by (simp add: ss)
  let ?ap = "\<lparr>if_mode = AP_IF, cfg_ssid = Some a, cfg_password = Some p\<rparr>"
  from select_interface_tail [OF g(1) g(2) g(3) g(4) A B w1_def w2' mode] obtain w5 where
    sel: "select_interface w = Inr ((?ap, AP_IF), w5)" and s5: "secrets_py w5 = secrets_py w2"
    and r5: "radio w5 = radio w" and u5: "unique_id w5 = unique_id w"
    and c5: "\<forall>P. (\<forall>c. is_poll c \<longrightarrow> \<not> P c) \<longrightarrow>
             count_where P w5 = count_where P w + (if P New then 1 else 0) +
               (if P (Config (Some a) (Some p)) then 1 else 0)"
    by (elim exE conjE) (rule that; assumption)
  from store_view_secrets [OF s5 sv2] have sv5: "store_view w5 ?m2" .
  have v2: "value_of ?m2 ''WLAN_SSID'' = None" "value_of ?m2 ''AP_SSID'' = Some a"
    "value_of ?m2 ''AP_PASSWORD'' = Some p"
    using va vp by (simp_all add: normalised_def)
  have con: "connect_interface ?ap w5 = Inl (WLANConnectionError, w5)"
    using get_view [OF sv5 store_key_names(1)] get_view [OF sv5 store_key_names(2)]
    by (intro connect_interface_no_credentials) (simp_all only: v2)
  have ga: "dynamic_get_secret ''AP_SSID'' (secrets_py w5) = Inr (Some a)"
    and gp: "dynamic_get_secret ''AP_PASSWORD'' (secrets_py w5) = Inr (Some p)"
    using get_view [OF sv5 store_key_names(3)] get_view [OF sv5 store_key_names(4)]
    by (simp_all only: v2)
  from access_point_reset_ok [OF ga gp, of ?ap] obtain w' where
    res: "access_point_reset ?ap w5 = Inr ((?ap, AP_IF), w')" and k: "kept w5 w'"
    and cr: "\<forall>P. (\<forall>c. is_poll c \<longrightarrow> \<not> P c) \<longrightarrow>
            count_where P w' = count_where P w5 + (if P Disconnect then 1 else 0) +
              (if P Deinit then 1 else 0) + (if P New then 1 else 0) +
              (if P (Config (Some a) (Some p)) then 1 else 0)"
    by (elim exE conjE) (rule that; assumption)
  have "get_network_interface w = Inr ((?ap, AP_IF), w')"
    unfolding get_network_interface_def
    by (simp only: sel con res sum.case prod.case if_True simp_thms)
  moreover have "store_view w' ?m2" using k sv5 by (rule store_view_kept)
  moreover have "?m2 ''WLAN_SSID'' = Some None" "?m2 ''WLAN_PASSWORD'' = Some None" by simp_all
  moreover have "count_calls Scan w' = count_calls Scan w"
    "count_where is_connect w' = count_where is_connect w"
    "count_calls Deinit w' = count_calls Deinit w + 1"
    using count_calls_reset [OF cr] count_calls_select [OF c5] by simp_all
  ultimately show ?thesis
    using v2(2) v2(3) A B
    by (intro exI [of _ a] exI [of _ p] exI [of _ w'] exI [of _ ?m2] conjI) (assumption+)
qed

lemma acquire_unavailable:
  assumes sv: "store_view w m" and ss: "value_of m ''WLAN_SSID'' = Some s"
    and id: "unique_id w \<noteq> []"
    and scan: "\<forall>i. \<exists>found. r_scan (radio w i) = Inr found \<and> Undecodable \<notin> set found \<and>
                 Decodable s \<notin> set found"
  shows "\<exists>a p w5 w' m'.
     select_interface w =
       Inr ((\<lparr>if_mode = STA_IF, cfg_ssid = Some a, cfg_password = Some p\<rparr>, STA_IF), w5) \<and>
     connect_interface \<lparr>if_mode = STA_IF, cfg_ssid = Some a, cfg_password = Some p\<rparr> w5 =
       Inl (WLANConnectionError, call \<lparr>if_mode = STA_IF, cfg_ssid = Some a, cfg_password = Some p\<rparr> Scan w5) \<and>
     get_network_interface w =
       Inr ((\<lparr>if_mode = AP_IF, cfg_ssid = Some a, cfg_password = Some p\<rparr>, AP_IF), w') \<and>
     store_view w' m' \<and> value_of m' ''WLAN_SSID'' = Some s \<and>
     count_calls Scan w' = count_calls Scan w + 1 \<and>
     count_where is_connect w' = count_where is_connect w \<and>
     count_calls Deinit w' = count_calls Deinit w + 1"
proof -
  let ?g = "value_of m ''AP_SSID'' = None \<or> value_of m ''AP_PASSWORD'' = None"
  from ap_stage [OF sv id] obtain a p m1 where
    A: "(if ?g then Some (''PICO-W-'' @ upper (hexlify (unique_id w))) else value_of m ''AP_SSID'') = Some a"
    and B: "(if ?g then Some (upper (hexlify (unique_id w))) else value_of m ''AP_PASSWORD'') = Some p"
    and C: "store_view (if ?g then set_secret ''AP_PASSWORD'' (Some p) (set_secret ''AP_SSID'' (Some a) w)
                        else w) m1"
    and va: "value_of m1 ''AP_SSID'' = Some a" and vp: "value_of m1 ''AP_PASSWORD'' = Some p"
    and fr: "\<forall>k. k \<noteq> ''AP_SSID'' \<and> k \<noteq> ''AP_PASSWORD'' \<longrightarrow> m1 k = m k"
    by (elim exE conjE) (rule that; assumption)
  define w1 where "w1 = (if ?g then set_secret ''AP_PASSWORD'' (Some p) (set_secret ''AP_SSID'' (Some a) w)
                         else w)"
  from C have sv1: "store_view w1 m1" by (simp only: w1_def)
  have "m1 ''WLAN_SSID'' = m ''WLAN_SSID''" using fr by simp
  then have vs: "value_of m1 ''WLAN_SSID'' = Some s" using ss by (simp add: value_of_def)
  have sne: "s \<noteq> []" using ss by (auto simp: value_of_def normalised_def split: if_splits)
  note g = store_key_names [THEN get_view [OF sv]]
  have w2': "w1 = (if (case value_of m ''WLAN_SSID'' of None \<Rightarrow> True | Some s \<Rightarrow> length s < 1)
       then set_secret ''WLAN_PASSWORD'' None (set_secret ''WLAN_SSID'' None w1) else w1)"
    using sne by (simp add: ss)
  have mode: "STA_IF = (if (case value_of m ''WLAN_SSID'' of None \<Rightarrow> True | Some s \<Rightarrow> length s < 1)
       then AP_IF else STA_IF)"
    using sne by (simp add: ss)
  let ?sta = "\<lparr>if_mode = STA_IF, cfg_ssid = Some a, cfg_password = Some p\<rparr>"
  let ?ap = "\<lparr>if_mode = AP_IF, cfg_ssid = Some a, cfg_password = Some p\<rparr>"
  from select_interface_tail [OF g(1) g(2) g(3) g(4) A B w1_def w2' mode] obtain w5 where
    sel: "select_interface w = Inr ((?sta, STA_IF), w5)" and s5: "secrets_py w5 = secrets_py w1"
    and r5: "radio w5 = radio w" and u5: "unique_id w5 = unique_id w"
    and c5: "\<forall>P. (\<forall>c. is_poll c \<longrightarrow> \<not> P c) \<longrightarrow>
             count_where P w5 = count_where P w + (if P New then 1 else 0) +
               (if P (Config (Some a) (Some p)) then 1 else 0)"
    by (elim exE conjE) (rule that; assumption)
  from store_view_secrets [OF s5 sv1] have sv5: "store_view w5 m1" .
  from scan [THEN spec, of "length (radio_log w5)"] obtain found where
    sc: "r_scan (now w5) = Inr found" and dec: "Undecodable \<notin> set found"
    and ab: "Decodable s \<notin> set found"
    by (auto simp: now_def r5)
  let ?w6 = "call ?sta Scan w5"
  have con: "connect_interface ?sta w5 = Inl (WLANConnectionError, ?w6)"
    using connect_interface_unavailable [OF _ get_view [OF sv5 store_key_names(2)] sc dec ab]
    by (simp only: get_view [OF sv5 store_key_names(1)] vs simp_thms)
  have k6: "kept w5 ?w6" by simp
  from store_view_kept [OF k6 sv5] have sv6: "store_view ?w6 m1" .
  have ga: "dynamic_get_secret ''AP_SSID'' (secrets_py ?w6) = Inr (Some a)"
    and gp: "dynamic_get_secret ''AP_PASSWORD'' (secrets_py ?w6) = Inr (Some p)"
    using get_view [OF sv6 store_key_names(3)] get_view [OF sv6 store_key_names(4)]
    by (simp_all only: va vp)
  from access_point_reset_ok [OF ga gp, of ?sta] obtain w' where
    res: "access_point_reset ?sta ?w6 = Inr ((?ap, AP_IF), w')" and k: "kept ?w6 w'"
    and cr: "\<forall>P. (\<forall>c. is_poll c \<longrightarrow> \<not> P c) \<longrightarrow>
            count_where P w' = count_where P ?w6 + (if P Disconnect then 1 else 0) +
              (if P Deinit then 1 else 0) + (if P New then 1 else 0) +
              (if P (Config (Some a) (Some p)) then 1 else 0)"
    by (elim exE conjE) (rule that; assumption)
  have gni: "get_network_interface w = Inr ((?ap, AP_IF), w')"
    unfolding get_network_interface_def
    by (simp only: sel con res sum.case prod.case if_True simp_thms)
  have svf: "store_view w' m1" using k sv6 by (rule store_view_kept)
  have nc: "\<not> is_connect Scan" by (simp add: is_connect_def)
  have cnt: "count_calls Scan w' = count_calls Scan w + 1"
    "count_where is_connect w' = count_where is_connect w"
    "count_calls Deinit w' = count_calls Deinit w + 1"
    using count_calls_reset [OF cr] count_calls_select [OF c5] nc
    by (simp_all add: count_calls_where)
  from sel con gni svf vs cnt show ?thesis
    by (intro exI [of _ a] exI [of _ p] exI [of _ w5] exI [of _ w'] exI [of _ m1] conjI)
qed


lemma select_station:
  assumes sv: "store_view w m" and ss: "value_of m ''WLAN_SSID'' = Some s"
    and id: "unique_id w \<noteq> []"
  shows "\<exists>a p w5 m1.
     select_interface w =
       Inr ((\<lparr>if_mode = STA_IF, cfg_ssid = Some a, cfg_password = Some p\<rparr>, STA_IF), w5) \<and>
     store_view w5 m1 \<and> value_of m1 ''WLAN_SSID'' = Some s \<and>
     value_of m1 ''AP_SSID'' = Some a \<and> value_of m1 ''AP_PASSWORD'' = Some p \<and>
     radio w5 = radio w \<and> count_calls Deinit w5 = count_calls Deinit w"
proof -
  let ?g = "value_of m ''AP_SSID'' = None \<or> value_of m ''AP_PASSWORD'' = None"
  from ap_stage [OF sv id] obtain a p m1 where
    A: "(if ?g then Some (''PICO-W-'' @ upper (hexlify (unique_id w))) else value_of m ''AP_SSID'') = Some a"
    and B: "(if ?g then Some (upper (hexlify (unique_id w))) else value_of m ''AP_PASSWORD'') = Some p"
    and C: "store_view (if ?g then set_secret ''AP_PASSWORD'' (Some p) (set_secret ''AP_SSID'' (Some a) w)
                        else w) m1"
    and va: "value_of m1 ''AP_SSID'' = Some a" and vp: "value_of m1 ''AP_PASSWORD'' = Some p"
    and fr: "\<forall>k. k \<noteq> ''AP_SSID'' \<and> k \<noteq> ''AP_PASSWORD'' \<longrightarrow> m1 k = m k"
    by (elim exE conjE) (rule that; assumption)
  define w1 where "w1 = (if ?g then set_secret ''AP_PASSWORD'' (Some p) (set_secret ''AP_SSID'' (Some a) w)
                         else w)"
  from C have sv1: "store_view w1 m1" by (simp only: w1_def)
  have "m1 ''WLAN_SSID'' = m ''WLAN_SSID''" using fr by simp
  then have vs: "value_of m1 ''WLAN_SSID'' = Some s" using ss by (simp add: value_of_def)
  have sne: "s \<noteq> []" using ss by (auto simp: value_of_def normalised_def split: if_splits)
  note g = store_key_names [THEN get_view [OF sv]]
  have w2': "w1 = (if (case value_of m ''WLAN_SSID'' of None \<Rightarrow> True | Some s \<Rightarrow> length s < 1)
       then set_secret ''WLAN_PASSWORD'' None (set_secret ''WLAN_SSID'' None w1) else w1)"
    using sne by (simp add: ss)
  have mode: "STA_IF = (if (case value_of m ''WLAN_SSID'' of None \<Rightarrow> True | Some s \<Rightarrow> length s < 1)
       then AP_IF else STA_IF)"
    using sne by (simp add: ss)
  let ?sta = "\<lparr>if_mode = STA_IF, cfg_ssid = Some a, cfg_password = Some p\<rparr>"
  from select_interface_tail [OF g(1) g(2) g(3) g(4) A B w1_def w2' mode] obtain w5 where
    sel: "select_interface w = Inr ((?sta, STA_IF), w5)" and s5: "secrets_py w5 = secrets_py w1"
    and r5: "radio w5 = radio w" and u5: "unique_id w5 = unique_id w"
    and c5: "\<forall>P. (\<forall>c. is_poll c \<longrightarrow> \<not> P c) \<longrightarrow>
             count_where P w5 = count_where P w + (if P New then 1 else 0) +
               (if P (Config (Some a) (Some p)) then 1 else 0)"
    by (elim exE conjE) (rule that; assumption)
  from store_view_secrets [OF s5 sv1] have sv5: "store_view w5 m1" .
  note d5 = count_calls_select(3) [OF c5]
  from sel sv5 vs va vp r5 d5 show ?thesis
    by (intro exI [of _ a] exI [of _ p] exI [of _ w5] exI [of _ m1] conjI)
qed


lemma acquire_garbled:
  assumes sv: "store_view w m" and ss: "value_of m ''WLAN_SSID'' = Some s"
    and id: "unique_id w \<noteq> []"
    and scan: "\<forall>i. \<exists>found. r_scan (radio w i) = Inr found \<and> Undecodable \<in> set found"
  shows "\<exists>a p w5.
     select_interface w =
       Inr ((\<lparr>if_mode = STA_IF, cfg_ssid = Some a, cfg_password = Some p\<rparr>, STA_IF), w5) \<and>
     connect_interface \<lparr>if_mode = STA_IF, cfg_ssid = Some a, cfg_password = Some p\<rparr> w5 =
       Inl (UnicodeError, call \<lparr>if_mode = STA_IF, cfg_ssid = Some a, cfg_password = Some p\<rparr> Scan w5) \<and>
     get_network_interface w =
       Inl (UnicodeError, call \<lparr>if_mode = STA_IF, cfg_ssid = Some a, cfg_password = Some p\<rparr> Scan w5) \<and>
     count_calls Deinit w5 = count_calls Deinit w"
proof -
  from select_station [OF sv ss id] obtain a p w5 m1 where
    sel: "select_interface w =
       Inr ((\<lparr>if_mode = STA_IF, cfg_ssid = Some a, cfg_password = Some p\<rparr>, STA_IF), w5)"
    and sv5: "store_view w5 m1" and vs: "value_of m1 ''WLAN_SSID'' = Some s"
    and r5: "radio w5 = radio w" and d5: "count_calls Deinit w5 = count_calls Deinit w"
    by (elim exE conjE)
  let ?sta = "\<lparr>if_mode = STA_IF, cfg_ssid = Some a, cfg_password = Some p\<rparr>"
  from scan [THEN spec, of "length (radio_log w5)"] obtain found where
    sc: "r_scan (now w5) = Inr found" and g: "Undecodable \<in> set found"
    by (auto simp: now_def r5)
  have con: "connect_interface ?sta w5 = Inl (UnicodeError, call ?sta Scan w5)"
    using connect_interface_garbled [OF _ get_view [OF sv5 store_key_names(2)] sc g]
    by (simp only: get_view [OF sv5 store_key_names(1)] vs simp_thms)
  have gni: "get_network_interface w = Inl (UnicodeError, call ?sta Scan w5)"
    by (simp add: get_network_interface_def sel con)
  from sel con gni d5 show ?thesis
    by (intro exI [of _ a] exI [of _ p] exI [of _ w5] conjI)
qed

lemma acquire_absent_ssid:
  assumes sv: "store_view w m" and ab: "''WLAN_SSID'' \<notin> dom m"
    and id: "unique_id w \<noteq> []"
    and scan: "\<forall>i. \<exists>found. r_scan (radio w i) = Inr found \<and> Undecodable \<notin> set found \<and>
                 Decodable ''None'' \<notin> set found"
  shows "\<exists>a p w' m'. get_network_interface w =
       Inr ((\<lparr>if_mode = AP_IF, cfg_ssid = Some a, cfg_password = Some p\<rparr>, AP_IF), w') \<and>
     store_view w' m' \<and> value_of m' ''WLAN_SSID'' = Some ''None'' \<and>
     count_calls Scan w' = count_calls Scan w + 1"
proof -
  let ?g = "value_of m ''AP_SSID'' = None \<or> value_of m ''AP_PASSWORD'' = None"
  from ap_stage [OF sv id] obtain a p m1 where
    A: "(if ?g then Some (''PICO-W-'' @ upper (hexlify (unique_id w))) else value_of m ''AP_SSID'') = Some a"
    and B: "(if ?g then Some (upper (hexlify (unique_id w))) else value_of m ''AP_PASSWORD'') = Some p"
    and C: "store_view (if ?g then set_secret ''AP_PASSWORD'' (Some p) (set_secret ''AP_SSID'' (Some a) w)
                        else w) m1"
    and va: "value_of m1 ''AP_SSID'' = Some a" and vp: "value_of m1 ''AP_PASSWORD'' = Some p"
    and fr: "\<forall>k. k \<noteq> ''AP_SSID'' \<and> k \<noteq> ''AP_PASSWORD'' \<longrightarrow> m1 k = m k"
    by (elim exE conjE) (rule that; assumption)
  define w1 where "w1 = (if ?g then set_secret ''AP_PASSWORD'' (Some p) (set_secret ''AP_SSID'' (Some a) w)
                         else w)"
  define w2 where "w2 = set_secret ''WLAN_PASSWORD'' None (set_secret ''WLAN_SSID'' None w1)"
  have ks: "''WLAN_SSID'' \<in> set store_keys" and kp: "''WLAN_PASSWORD'' \<in> set store_keys"
    by (simp_all add: store_keys_def)
  have pn: "plain_value None" by (simp add: plain_value_def)
  from C have sv1: "store_view w1 m1" by (simp only: w1_def)
  have "m1 ''WLAN_SSID'' = m ''WLAN_SSID''" using fr by simp
  with ab have e1: "''WLAN_SSID'' \<notin> dom m1" by auto
  from ab have ss: "value_of m ''WLAN_SSID'' = None"
    by (auto simp: value_of_def normalised_def)
  define ma where "ma = m1(''WLAN_SSID'' \<mapsto> Some ''None'')"
  have sva: "store_view (set_secret ''WLAN_SSID'' None w1) ma"
    using set_secret_view [OF sv1 ks pn] e1 by (simp add: normalised_def ma_def)
  define mb where "mb = ma(''WLAN_PASSWORD'' \<mapsto>
     (if ''WLAN_PASSWORD'' \<in> dom ma \<or> normalised None \<noteq> None then normalised None else Some ''None''))"
  have sv2: "store_view w2 mb"
    using set_secret_view [OF sva kp pn] by (simp only: w2_def mb_def)
  have v2: "value_of mb ''WLAN_SSID'' = Some ''None''" "value_of mb ''AP_SSID'' = Some a"
    "value_of mb ''AP_PASSWORD'' = Some p"
    using va vp by (simp_all add: mb_def ma_def normalised_def)
  note g = store_key_names [THEN get_view [OF sv]]
  have w2': "w2 = (if (case value_of m ''WLAN_SSID'' of None \<Rightarrow> True | Some s \<Rightarrow> length s < 1)
       then set_secret ''WLAN_PASSWORD'' None (set_secret ''WLAN_SSID'' None w1) else w1)"
    by (simp add: ss w2_def)
  have mode: "AP_IF = (if (case value_of m ''WLAN_SSID'' of None \<Rightarrow> True | Some s \<Rightarrow> length s < 1)
       then AP_IF else STA_IF)"
    by (simp add: ss)
  let ?ap = "\<lparr>if_mode = AP_IF, cfg_ssid = Some a, cfg_password = Some p\<rparr>"
  from select_interface_tail [OF g(1) g(2) g(3) g(4) A B w1_def w2' mode] obtain w5 where
    sel: "select_interface w = Inr ((?ap, AP_IF), w5)" and s5: "secrets_py w5 = secrets_py w2"
    and r5: "radio w5 = radio w" and u5: "unique_id w5 = unique_id w"
    and c5: "\<forall>P. (\<forall>c. is_poll c \<longrightarrow> \<not> P c) \<longrightarrow>
             count_where P w5 = count_where P w + (if P New then 1 else 0) +
               (if P (Config (Some a) (Some p)) then 1 else 0)"
    by (elim exE conjE) (rule that; assumption)
  from store_view_secrets [OF s5 sv2] have sv5: "store_view w5 mb" .
  from scan [THEN spec, of "length (radio_log w5)"] obtain found where
    sc: "r_scan (now w5) = Inr found" and dec: "Undecodable \<notin> set found"
    and no: "Decodable ''None'' \<notin> set found"
    by (auto simp: now_def r5)
  let ?w6 = "call ?ap Scan w5"
  have con: "connect_interface ?ap w5 = Inl (WLANConnectionError, ?w6)"
    using connect_interface_unavailable [OF _ get_view [OF sv5 store_key_names(2)] sc dec no]
    by (simp only: get_view [OF sv5 store_key_names(1)] v2 simp_thms)
  have k6: "kept w5 ?w6" by simp
  from store_view_kept [OF k6 sv5] have sv6: "store_view ?w6 mb" .
  have ga: "dynamic_get_secret ''AP_SSID'' (secrets_py ?w6) = Inr (Some a)"
    and gp: "dynamic_get_secret ''AP_PASSWORD'' (secrets_py ?w6) = Inr (Some p)"
    using get_view [OF sv6 store_key_names(3)] get_view [OF sv6 store_key_names(4)]
    by (simp_all only: v2)
  from access_point_reset_ok [OF ga gp, of ?ap] obtain w' where
    res: "access_point_reset ?ap ?w6 = Inr ((?ap, AP_IF), w')" and k: "kept ?w6 w'"
    and cr: "\<forall>P. (\<forall>c. is_poll c \<longrightarrow> \<not> P c) \<longrightarrow>
            count_where P w' = count_where P ?w6 + (if P Disconnect then 1 else 0) +
              (if P Deinit then 1 else 0) + (if P New then 1 else 0) +
              (if P (Config (Some a) (Some p)) then 1 else 0)"
    by (elim exE conjE) (rule that; assumption)
  have gni: "get_network_interface w = Inr ((?ap, AP_IF), w')"
    unfolding get_network_interface_def
    by (simp only: sel con res sum.case prod.case if_True simp_thms)
  have svf: "store_view w' mb" using k sv6 by (rule store_view_kept)
  have cnt: "count_calls Scan w' = count_calls Scan w + 1"
    using count_calls_reset(1) [OF cr] count_calls_select(1) [OF c5]
    by (simp add: count_calls_where)
  from gni svf v2(1) cnt show ?thesis
    by (intro exI [of _ a] exI [of _ p] exI [of _ w'] exI [of _ mb] conjI)
qed


section \<open>The handler and get_network_interface on a well-formed store\<close>

text \<open>
  What the functions do when the secrets file is a well-formed store and the values
  written are plain, that is, away from the inputs on which \<open>dynamic_set_secret\<close> writes a
  line that does not read back.

  The handler writes \<^verbatim>\<open>input-password\<close> as \<open>WLAN_PASSWORD\<close> first and only then writes,
  and thereby validates, the SSID; \<open>WLAN_PASSWORD\<close> reads back as the submitted password
  (the empty string as none) right after the first write and after the whole request,
  whether the answer is 400 or 205.
\<close>

lemma set_connection_password_first:
  assumes ok: "store_ok (create_secrets f)"
    and imp: "import_secrets (Some (create_secrets f)) = Inr m"
    and d: "''WLAN_PASSWORD'' \<in> dom m"
    and pp: "plain_value (form ''input-password'')"
    and ps: "plain_value (form ''input-ssid'')"
  shows "snd (set_connection form f) =
       snd (dynamic_set_secret ''WLAN_SSID'' (form ''input-ssid'')
              (snd (dynamic_set_secret ''WLAN_PASSWORD'' (form ''input-password'') f))) \<and>
     dynamic_get_secret ''WLAN_PASSWORD''
       (snd (dynamic_set_secret ''WLAN_PASSWORD'' (form ''input-password'') f)) =
       Inr (normalised (form ''input-password'')) \<and>
     dynamic_get_secret ''WLAN_PASSWORD'' (snd (set_connection form f)) =
       Inr (normalised (form ''input-password'')) \<and>
     (status_code (fst (set_connection form f)) = 400) = (normalised (form ''input-ssid'') = None)"
proof -
  have kp: "''WLAN_PASSWORD'' \<in> set store_keys" by (simp add: store_keys_def)
  from set_secret_store [OF ok imp kp pp] d obtain c1 where
    c1: "dynamic_set_secret ''WLAN_PASSWORD'' (form ''input-password'') (Some (create_secrets f)) =
           (normalised (form ''input-password'') \<noteq> None, Some c1)"
    "import_secrets (Some c1) = Inr (m(''WLAN_PASSWORD'' \<mapsto> normalised (form ''input-password'')))"
    by auto
  have first: "dynamic_get_secret ''WLAN_PASSWORD''
       (snd (dynamic_set_secret ''WLAN_PASSWORD'' (form ''input-password'') f)) =
       Inr (normalised (form ''input-password''))"
    apply (subst dynamic_set_secret_created)
    using get_from_import [OF c1(2) store_key_names(2)]
    apply (simp add: c1(1) normalised_def)
    done
  from set_connection_store [OF ok imp pp ps] d obtain c' m' where
    c: "snd (set_connection form f) = Some c'" "import_secrets (Some c') = Inr m'"
    "m' ''WLAN_PASSWORD'' = Some (normalised (form ''input-password''))"
    by auto
  from get_from_import [OF c(2) store_key_names(2)] c(3)
  have after: "dynamic_get_secret ''WLAN_PASSWORD'' (snd (set_connection form f)) =
       Inr (normalised (form ''input-password''))"
    by (simp add: c(1) normalised_def)
  have "(status_code (fst (set_connection form f)) = 400) = (normalised (form ''input-ssid'') = None)"
    by (simp add: set_connection_response)
  with first after set_connection_file [of form f] show ?thesis by simp
qed


text \<open>
  With both station keys in the store and \<open>WLAN_SSID\<close> reading as none,
  \<open>get_network_interface\<close> returns an interface in AP mode without a \<^verbatim>\<open>scan()\<close> or a
  \<^verbatim>\<open>connect()\<close>, and both station keys are assigned \<^verbatim>\<open>None\<close> afterwards.
\<close>

lemma acquire_unset_ssid:
  assumes sv: "store_view w m" and ss: "value_of m ''WLAN_SSID'' = None"
    and d1: "''WLAN_SSID'' \<in> dom m" and d2: "''WLAN_PASSWORD'' \<in> dom m"
    and id: "unique_id w \<noteq> []"
  shows "\<exists>WLAN w' m'. get_network_interface w = Inr ((WLAN, AP_IF), w') \<and>
     if_mode WLAN = AP_IF \<and>
     count_calls Scan w' = count_calls Scan w \<and>
     count_where is_connect w' = count_where is_connect w \<and>
     store_view w' m' \<and> m' ''WLAN_SSID'' = Some None \<and> m' ''WLAN_PASSWORD'' = Some None \<and>
     dynamic_get_secret ''WLAN_SSID'' (secrets_py w') = Inr None \<and>
     dynamic_get_secret ''WLAN_PASSWORD'' (secrets_py w') = Inr None"
proof -
  from acquire_unset [OF sv ss d1 d2 id] obtain a p w' m' where
    g: "get_network_interface w =
       Inr ((\<lparr>if_mode = AP_IF, cfg_ssid = Some a, cfg_password = Some p\<rparr>, AP_IF), w')"
    and sv': "store_view w' m'"
    and m: "m' ''WLAN_SSID'' = Some None" "m' ''WLAN_PASSWORD'' = Some None"
    and c: "count_calls Scan w' = count_calls Scan w"
      "count_where is_connect w' = count_where is_connect w"
    by (elim exE conjE)
  let ?ap = "\<lparr>if_mode = AP_IF, cfg_ssid = Some a, cfg_password = Some p\<rparr>"
  have mode: "if_mode ?ap = AP_IF" by simp
  have r: "dynamic_get_secret ''WLAN_SSID'' (secrets_py w') = Inr None"
    "dynamic_get_secret ''WLAN_PASSWORD'' (secrets_py w') = Inr None"
    by (simp_all add: get_view [OF sv'] store_key_names value_of_def m normalised_def)
  from g mode c sv' m r show ?thesis
    by (intro exI [of _ ?ap] exI [of _ w'] exI [of _ m'] conjI)
qed


text \<open>
  From a store in which the four keys of the connection module are assigned \<^verbatim>\<open>None\<close>,
  \<open>get_network_interface\<close> returns an interface in AP mode whose SSID is \<^verbatim>\<open>PICO-W-\<close>
  followed by the identifier and whose password is the identifier, two characters of
  \<^verbatim>\<open>0123456789ABCDEF\<close> for each byte of \<^verbatim>\<open>unique_id()\<close>; both are stored.
\<close>

lemma acquire_empty_store:
  assumes sv: "store_view w m"
    and e: "\<forall>k \<in> set store_keys. m k = Some None"
    and id: "unique_id w \<noteq> []"
  shows "\<exists>w'. get_network_interface w =
       Inr ((\<lparr>if_mode = AP_IF, cfg_ssid = Some (''PICO-W-'' @ upper (hexlify (unique_id w))),
              cfg_password = Some (upper (hexlify (unique_id w)))\<rparr>, AP_IF), w') \<and>
     dynamic_get_secret ''AP_SSID'' (secrets_py w') =
       Inr (Some (''PICO-W-'' @ upper (hexlify (unique_id w)))) \<and>
     dynamic_get_secret ''AP_PASSWORD'' (secrets_py w') = Inr (Some (upper (hexlify (unique_id w)))) \<and>
     set (upper (hexlify (unique_id w))) \<subseteq> set ''0123456789ABCDEF'' \<and>
     length (upper (hexlify (unique_id w))) = 2 * length (unique_id w)"
proof -
  from e have k: "m ''AP_SSID'' = Some None" "m ''AP_PASSWORD'' = Some None"
    "m ''WLAN_SSID'' = Some None" "m ''WLAN_PASSWORD'' = Some None"
    by (simp_all add: store_keys_def)
  have v: "value_of m ''AP_SSID'' = None" "value_of m ''WLAN_SSID'' = None"
    by (simp_all add: value_of_def k normalised_def)
  have d: "''WLAN_SSID'' \<in> dom m" "''WLAN_PASSWORD'' \<in> dom m" using k by auto
  from acquire_unset [OF sv v(2) d id] obtain a p w' m' where
    g: "get_network_interface w =
       Inr ((\<lparr>if_mode = AP_IF, cfg_ssid = Some a, cfg_password = Some p\<rparr>, AP_IF), w')"
    and sv': "store_view w' m'"
    and va: "value_of m' ''AP_SSID'' = Some a" and vp: "value_of m' ''AP_PASSWORD'' = Some p"
    and A: "(if value_of m ''AP_SSID'' = None \<or> value_of m ''AP_PASSWORD'' = None
      then Some (''PICO-W-'' @ upper (hexlify (unique_id w))) else value_of m ''AP_SSID'') = Some a"
    and B: "(if value_of m ''AP_SSID'' = None \<or> value_of m ''AP_PASSWORD'' = None
      then Some (upper (hexlify (unique_id w))) else value_of m ''AP_PASSWORD'') = Some p"
    by (elim exE conjE)
  from A B have ap: "a = ''PICO-W-'' @ upper (hexlify (unique_id w))" "p = upper (hexlify (unique_id w))"
    by (simp_all add: v(1))
  have r: "dynamic_get_secret ''AP_SSID'' (secrets_py w') = Inr (Some a)"
    "dynamic_get_secret ''AP_PASSWORD'' (secrets_py w') = Inr (Some p)"
    using get_view [OF sv' store_key_names(3)] get_view [OF sv' store_key_names(4)]
    by (simp_all only: va vp)
  from g r upper_hexlify_chars [of "unique_id w"] upper_hexlify_length [of "unique_id w"]
  show ?thesis unfolding ap by (intro exI [of _ w'] conjI)
qed


text \<open>
  With \<open>WLAN_SSID\<close> reading as a string \<open>s\<close> and a radio whose scans decode and never
  list \<open>s\<close>, \<open>connect_interface\<close> raises \<open>WLANConnectionError\<close> and
  \<open>get_network_interface\<close> returns what \<open>access_point_reset\<close> returns; \<open>WLAN_SSID\<close> reads
  as \<open>s\<close> afterwards.
\<close>

lemma acquire_ssid_unavailable:
  assumes sv: "store_view w m" and ss: "value_of m ''WLAN_SSID'' = Some s"
    and id: "unique_id w \<noteq> []"
    and scan: "\<forall>i. \<exists>found. r_scan (radio w i) = Inr found \<and> Undecodable \<notin> set found \<and>
                 Decodable s \<notin> set found"
  shows "\<exists>WLAN w5 w6 AP w'.
     select_interface w = Inr ((WLAN, STA_IF), w5) \<and>
     connect_interface WLAN w5 = Inl (WLANConnectionError, w6) \<and>
     get_network_interface w = access_point_reset WLAN w6 \<and>
     get_network_interface w = Inr ((AP, AP_IF), w') \<and> if_mode AP = AP_IF \<and>
     count_calls Deinit w' = count_calls Deinit w + 1 \<and>
     count_where is_connect w' = count_where is_connect w \<and>
     dynamic_get_secret ''WLAN_SSID'' (secrets_py w) = Inr (Some s) \<and>
     dynamic_get_secret ''WLAN_SSID'' (secrets_py w') = Inr (Some s)"
proof -
  from acquire_unavailable [OF sv ss id scan] obtain a p w5 w' m' where
    sel: "select_interface w =
       Inr ((\<lparr>if_mode = STA_IF, cfg_ssid = Some a, cfg_password = Some p\<rparr>, STA_IF), w5)"
    and con: "connect_interface \<lparr>if_mode = STA_IF, cfg_ssid = Some a, cfg_password = Some p\<rparr> w5 =
       Inl (WLANConnectionError, call \<lparr>if_mode = STA_IF, cfg_ssid = Some a, cfg_password = Some p\<rparr> Scan w5)"
    and g: "get_network_interface w =
       Inr ((\<lparr>if_mode = AP_IF, cfg_ssid = Some a, cfg_password = Some p\<rparr>, AP_IF), w')"
    and sv': "store_view w' m'" and vs: "value_of m' ''WLAN_SSID'' = Some s"
    and c: "count_where is_connect w' = count_where is_connect w"
      "count_calls Deinit w' = count_calls Deinit w + 1"
    by (elim exE conjE)
  let ?sta = "\<lparr>if_mode = STA_IF, cfg_ssid = Some a, cfg_password = Some p\<rparr>"
  let ?ap = "\<lparr>if_mode = AP_IF, cfg_ssid = Some a, cfg_password = Some p\<rparr>"
  have h: "get_network_interface w = access_point_reset ?sta (call ?sta Scan w5)"
    by (simp add: get_network_interface_def sel con)
  have mode: "if_mode ?ap = AP_IF" by simp
  have b: "dynamic_get_secret ''WLAN_SSID'' (secrets_py w) = Inr (Some s)"
    using get_view [OF sv store_key_names(1)] by (simp only: ss)
  have r: "dynamic_get_secret ''WLAN_SSID'' (secrets_py w') = Inr (Some s)"
    using get_view [OF sv' store_key_names(1)] by (simp only: vs)
  from sel con h g mode c(2) c(1) b r show ?thesis
    by (intro exI [of _ ?sta] exI [of _ w5] exI [of _ "call ?sta Scan w5"] exI [of _ ?ap]
        exI [of _ w'] conjI)
qed


section \<open>The claims\<close>

text \<open>
  C4. \<open>connection_issue\<close> answers true for the access-point mode and, for the station
  mode, the negation of what \<^verbatim>\<open>isconnected()\<close> reports: true iff the mode is AP_IF, or
  the mode is STA_IF and the interface reports not connected. It writes nothing: the
  secrets file, the identifier and the radio's answers are as before, and the only call
  it makes is the \<^verbatim>\<open>isconnected()\<close> query of the station case.
\<close>

theorem connection_issue_pure:
  "fst (connection_issue WLAN WLAN_MODE w) =
     (WLAN_MODE = AP_IF \<or> WLAN_MODE = STA_IF \<and> \<not> r_isconnected (now w)) \<and>
   fst (connection_issue WLAN AP_IF w) = True \<and>
   fst (connection_issue WLAN STA_IF w) = (\<not> r_isconnected (now w)) \<and>
   secrets_py (snd (connection_issue WLAN WLAN_MODE w)) = secrets_py w \<and>
   radio (snd (connection_issue WLAN WLAN_MODE w)) = radio w \<and>
   unique_id (snd (connection_issue WLAN WLAN_MODE w)) = unique_id w \<and>
   radio_log (snd (connection_issue WLAN WLAN_MODE w)) =
     radio_log w @ (if WLAN_MODE = STA_IF then [(if_mode WLAN, IsConnected)] else [])"
  by (simp add: connection_issue_def wlan_isconnected_def AP_IF_def STA_IF_def now_def)

text \<open>
  C8. \<open>activate_interface\<close> and \<open>deactivate_interface\<close> return normally for every
  interface, every world and every behaviour of the radio. \<open>activate_interface\<close> reads
  the status at most 5 times (and \<^verbatim>\<open>active()\<close> at most 5 times), \<open>deactivate_interface\<close>
  reads \<^verbatim>\<open>active()\<close> at most 5 times. Each returns at the first attempt that is told the
  state it waits for, after \<open>k + 1\<close> reads when that is attempt \<open>k\<close>, and returns after
  exactly 5 reads, without an exception, when no attempt is told so.
\<close>

theorem activate_deactivate_return:
  "(\<exists>w'. activate_interface WLAN w = Inr ((), w') \<and>
      count_calls Status w' \<le> count_calls Status w + 5 \<and>
      count_calls Active w' \<le> count_calls Active w + 5 \<and>
      (\<forall>k<5. (\<forall>j<k. \<not> reports_up w (length (radio_log w) + 1 + 3 * j)) \<and>
              reports_up w (length (radio_log w) + 1 + 3 * k) \<longrightarrow>
              count_calls Status w' = count_calls Status w + k + 1) \<and>
      ((\<forall>j<5. \<not> reports_up w (length (radio_log w) + 1 + 3 * j)) \<longrightarrow>
         count_calls Status w' = count_calls Status w + 5)) \<and>
   (\<exists>w'. deactivate_interface WLAN w = Inr ((), w') \<and>
      count_calls Active w' \<le> count_calls Active w + 5 \<and>
      (\<forall>k<5. (\<forall>j<k. \<not> reports_down w (length (radio_log w) + 1 + 2 * j)) \<and>
              reports_down w (length (radio_log w) + 1 + 2 * k) \<longrightarrow>
              count_calls Active w' = count_calls Active w + k + 1) \<and>
      ((\<forall>j<5. \<not> reports_down w (length (radio_log w) + 1 + 2 * j)) \<longrightarrow>
         count_calls Active w' = count_calls Active w + 5))"
proof (intro conjI)
  let ?w = "call WLAN (SetActive True) w"
  have len: "length (radio_log ?w) = length (radio_log w) + 1" by simp
  have up: "reports_up ?w = reports_up w" by (simp add: reports_up_def fun_eq_iff)
  obtain w' where ret: "activate_interface WLAN w = Inr ((), w')"
    using activate_interface_returns by blast
  note loop = activate_interface_loop [OF ret]
  have bound: "count_calls Status w' \<le> count_calls Status w + 5 \<and>
               count_calls Active w' \<le> count_calls Active w + 5"
    using await_active_bound [of WLAN 5 ?w StopIteration w' "()"] loop by auto
  have early: "count_calls Status w' = count_calls Status w + k + 1"
    if "k < 5" "\<forall>j<k. \<not> reports_up w (length (radio_log w) + 1 + 3 * j)"
       "reports_up w (length (radio_log w) + 1 + 3 * k)" for k
    using await_active_early [of k 5 ?w WLAN] that loop by (auto simp: len up)
  have late: "count_calls Status w' = count_calls Status w + 5"
    if "\<forall>j<5. \<not> reports_up w (length (radio_log w) + 1 + 3 * j)"
    using await_active_exhausted [of 5 ?w WLAN] that loop by (auto simp: len up)
  show "\<exists>w'. activate_interface WLAN w = Inr ((), w') \<and>
      count_calls Status w' \<le> count_calls Status w + 5 \<and>
      count_calls Active w' \<le> count_calls Active w + 5 \<and>
      (\<forall>k<5. (\<forall>j<k. \<not> reports_up w (length (radio_log w) + 1 + 3 * j)) \<and>
              reports_up w (length (radio_log w) + 1 + 3 * k) \<longrightarrow>
              count_calls Status w' = count_calls Status w + k + 1) \<and>
      ((\<forall>j<5. \<not> reports_up w (length (radio_log w) + 1 + 3 * j)) \<longrightarrow>
         count_calls Status w' = count_calls Status w + 5)"
    using ret bound early late by blast
next
  let ?w = "call WLAN (SetActive False) w"
  have len: "length (radio_log ?w) = length (radio_log w) + 1" by simp
  have down: "reports_down ?w = reports_down w" by (simp add: reports_down_def fun_eq_iff)
  obtain w' where ret: "deactivate_interface WLAN w = Inr ((), w')"
    using deactivate_interface_returns by blast
  note loop = deactivate_interface_loop [OF ret]
  have bound: "count_calls Active w' \<le> count_calls Active w + 5"
    using await_inactive_bound [of WLAN 5 ?w StopIteration w' "()"] loop by auto
  have early: "count_calls Active w' = count_calls Active w + k + 1"
    if "k < 5" "\<forall>j<k. \<not> reports_down w (length (radio_log w) + 1 + 2 * j)"
       "reports_down w (length (radio_log w) + 1 + 2 * k)" for k
    using await_inactive_early [of k 5 ?w WLAN] that loop by (auto simp: len down)
  have late: "count_calls Active w' = count_calls Active w + 5"
    if "\<forall>j<5. \<not> reports_down w (length (radio_log w) + 1 + 2 * j)"
    using await_inactive_exhausted [of 5 ?w WLAN] that loop by (auto simp: len down)
  show "\<exists>w'. deactivate_interface WLAN w = Inr ((), w') \<and>
      count_calls Active w' \<le> count_calls Active w + 5 \<and>
      (\<forall>k<5. (\<forall>j<k. \<not> reports_down w (length (radio_log w) + 1 + 2 * j)) \<and>
              reports_down w (length (radio_log w) + 1 + 2 * k) \<longrightarrow>
              count_calls Active w' = count_calls Active w + k + 1) \<and>
      ((\<forall>j<5. \<not> reports_down w (length (radio_log w) + 1 + 2 * j)) \<longrightarrow>
         count_calls Active w' = count_calls Active w + 5)"
    using ret bound early late by blast
qed

theorem activate_deactivate_return_witness:
  "(\<exists>w'. activate_interface ap0 slow_world = Inr ((), w') \<and> count_calls Status w' = 3) \<and>
   (\<exists>w'. deactivate_interface ap0 slow_world = Inr ((), w') \<and> count_calls Active w' = 1)"
proof -
  have up: "\<forall>j<2. \<not> reports_up slow_world (length (radio_log slow_world) + 1 + 3 * j)"
    "reports_up slow_world (length (radio_log slow_world) + 1 + 3 * 2)"
    by (simp_all add: reports_up_def slow_world_def fresh_world_def quiet_def STAT_GOT_IP_def
        less_Suc_eq numeral_2_eq_2)
  have down: "\<forall>j<0. \<not> reports_down slow_world (length (radio_log slow_world) + 1 + 2 * j)"
    "reports_down slow_world (length (radio_log slow_world) + 1 + 2 * 0)"
    by (simp_all add: reports_down_def slow_world_def fresh_world_def quiet_def)
  have start: "count_calls Status slow_world = 0" "count_calls Active slow_world = 0"
    by (simp_all add: count_calls_def slow_world_def fresh_world_def)
  note both = activate_deactivate_return [of ap0 slow_world]
  from both [THEN conjunct1] obtain w1 where
    a: "activate_interface ap0 slow_world = Inr ((), w1)" and
    ak: "\<forall>k<5. (\<forall>j<k. \<not> reports_up slow_world (length (radio_log slow_world) + 1 + 3 * j)) \<and>
              reports_up slow_world (length (radio_log slow_world) + 1 + 3 * k) \<longrightarrow>
              count_calls Status w1 = count_calls Status slow_world + k + 1"
    by (elim exE conjE)
  from both [THEN conjunct2] obtain w2 where
    d: "deactivate_interface ap0 slow_world = Inr ((), w2)" and
    dk: "\<forall>k<5. (\<forall>j<k. \<not> reports_down slow_world (length (radio_log slow_world) + 1 + 2 * j)) \<and>
              reports_down slow_world (length (radio_log slow_world) + 1 + 2 * k) \<longrightarrow>
              count_calls Active w2 = count_calls Active slow_world + k + 1"
    by (elim exE conjE)
  from ak [rule_format, of 2] up start have "count_calls Status w1 = 3" by simp
  moreover from dk [rule_format, of 0] down start have "count_calls Active w2 = 1" by simp
  ultimately show ?thesis using a d by blast
qed




text \<open>
  C5, evaluated at two inputs. Writing the value \<^verbatim>\<open>it's\<close> for \<open>WLAN_SSID\<close> returns true and
  leaves the line \<^verbatim>\<open>WLAN_SSID = 'it's'\<close> in the file, which no longer imports: reading the
  key back raises instead of returning the value. Writing the empty string for a key
  that no line of the file mentions returns false and appends \<^verbatim>\<open>NTP_HOST = 'None'\<close>: the
  key reads back as the string \<^verbatim>\<open>None\<close>, not as none.
\<close>

theorem dynamic_set_secret_unescaped:
  "dynamic_set_secret ''WLAN_SSID'' (Some ''it's'') (Some baseline) =
     (True, Some (''AP_SSID = None\<newline>'' @ ''AP_PASSWORD = None\<newline>'' @
                  ''WLAN_SSID = 'it's'\<newline>'' @ ''WLAN_PASSWORD = None\<newline>'' @
                  ''MQTT_ENDPOINT = None\<newline>'' @ ''MQTT_CLIENT_ID = None\<newline>'')) \<and>
   dynamic_get_secret ''WLAN_SSID''
     (snd (dynamic_set_secret ''WLAN_SSID'' (Some ''it's'') (Some baseline))) = Inl SyntaxError \<and>
   dynamic_set_secret ''NTP_HOST'' (Some []) (Some baseline) =
     (False, Some (baseline @ ''NTP_HOST = 'None'\<newline>'')) \<and>
   dynamic_get_secret ''NTP_HOST''
     (snd (dynamic_set_secret ''NTP_HOST'' (Some []) (Some baseline))) = Inr (Some ''None'')"
  by (simp add: set_eval)

text \<open>
  C7. Once both access-point credentials are stored (\<open>get_network_interface\<close> stores them
  before any call of \<open>access_point_reset\<close>), \<open>access_point_reset\<close> returns normally for
  every starting interface and every behaviour of the radio; the interface it returns is
  in AP mode and configured with the stored SSID and password; it leaves the secrets
  file as it was; and a second call, on any interface, returns an interface with the same
  mode, SSID and password.
\<close>

theorem access_point_reset_idempotent:
  assumes a: "dynamic_get_secret ''AP_SSID'' (secrets_py w) = Inr (Some a)"
    and p: "dynamic_get_secret ''AP_PASSWORD'' (secrets_py w) = Inr (Some p)"
  shows "\<exists>w1. access_point_reset WLAN w =
           Inr ((\<lparr>if_mode = AP_IF, cfg_ssid = Some a, cfg_password = Some p\<rparr>, AP_IF), w1) \<and>
         secrets_py w1 = secrets_py w \<and>
         (\<exists>w2. access_point_reset WLAN' w1 =
            Inr ((\<lparr>if_mode = AP_IF, cfg_ssid = Some a, cfg_password = Some p\<rparr>, AP_IF), w2) \<and>
            secrets_py w2 = secrets_py w)"
proof -
  let ?ap = "\<lparr>if_mode = AP_IF, cfg_ssid = Some a, cfg_password = Some p\<rparr>"
  from access_point_reset_ok [OF a p, of WLAN] obtain w1 where
    r1: "access_point_reset WLAN w = Inr ((?ap, AP_IF), w1)" and k1: "kept w w1"
    by (elim exE conjE)
  from k1 have s1: "secrets_py w1 = secrets_py w" by (simp add: kept_def)
  have a1: "dynamic_get_secret ''AP_SSID'' (secrets_py w1) = Inr (Some a)"
    and p1: "dynamic_get_secret ''AP_PASSWORD'' (secrets_py w1) = Inr (Some p)"
    by (simp_all only: s1 a p)
  from access_point_reset_ok [OF a1 p1, of WLAN'] obtain w2 where
    r2: "access_point_reset WLAN' w1 = Inr ((?ap, AP_IF), w2)" and k2: "kept w1 w2"
    by (elim exE conjE)
  from k2 s1 have s2: "secrets_py w2 = secrets_py w" by (simp add: kept_def)
  from r2 s2 have "\<exists>w2. access_point_reset WLAN' w1 = Inr ((?ap, AP_IF), w2) \<and>
      secrets_py w2 = secrets_py w"
    by (intro exI [of _ w2] conjI)
  with r1 s1 have "access_point_reset WLAN w = Inr ((?ap, AP_IF), w1) \<and>
      secrets_py w1 = secrets_py w \<and>
      (\<exists>w2. access_point_reset WLAN' w1 = Inr ((?ap, AP_IF), w2) \<and> secrets_py w2 = secrets_py w)"
    by (intro conjI)
  then show ?thesis by (rule exI)
qed

theorem access_point_reset_idempotent_witness:
  "\<exists>w1 w2.
     access_point_reset sta0 (fresh_world (Some home_store) home_radio) =
       Inr ((\<lparr>if_mode = AP_IF, cfg_ssid = Some ''PICO-W-E66161234567890B'',
              cfg_password = Some ''E66161234567890B''\<rparr>, AP_IF), w1) \<and>
     access_point_reset \<lparr>if_mode = AP_IF, cfg_ssid = Some ''PICO-W-E66161234567890B'',
                          cfg_password = Some ''E66161234567890B''\<rparr> w1 =
       Inr ((\<lparr>if_mode = AP_IF, cfg_ssid = Some ''PICO-W-E66161234567890B'',
              cfg_password = Some ''E66161234567890B''\<rparr>, AP_IF), w2)"
proof -
  let ?ap = "\<lparr>if_mode = AP_IF, cfg_ssid = Some ''PICO-W-E66161234567890B'',
              cfg_password = Some ''E66161234567890B''\<rparr>"
  have a: "dynamic_get_secret ''AP_SSID'' (secrets_py (fresh_world (Some home_store) home_radio)) =
      Inr (Some ''PICO-W-E66161234567890B'')"
    and p: "dynamic_get_secret ''AP_PASSWORD'' (secrets_py (fresh_world (Some home_store) home_radio)) =
      Inr (Some ''E66161234567890B'')"
    by (simp_all add: get_view [OF home_view] store_key_names value_of_def normalised_def)
  from access_point_reset_idempotent [OF a p, of sta0 ?ap] obtain w1 w2 where
    "access_point_reset sta0 (fresh_world (Some home_store) home_radio) = Inr ((?ap, AP_IF), w1)"
    "access_point_reset ?ap w1 = Inr ((?ap, AP_IF), w2)"
    by (elim exE conjE)
  then show ?thesis by (intro exI [of _ w1] exI [of _ w2] conjI)
qed

text \<open>
  C1, as the code has it. When the SSID is stored, the scan decodes and lists it,
  \<^verbatim>\<open>connect()\<close> is accepted and none of the 30 attempts is told that the station is
  connected or has an address, \<open>connect_interface\<close> asks \<^verbatim>\<open>isconnected()\<close> 30 times and
  then raises \<open>StopIteration\<close>, the exception of the exhausted iterator, re-raised by the
  bare \<^verbatim>\<open>raise\<close> of its handler: not \<open>WLANConnectionError\<close>, the exception of the other
  failures of the station connect. The caller still falls back: whenever
  \<open>get_network_interface\<close> has reached this call of \<open>connect_interface\<close>, its
  \<^verbatim>\<open>except StopIteration\<close> handler returns what \<open>access_point_reset\<close> returns.
\<close>

theorem connect_interface_timeout_raises:
  assumes s: "dynamic_get_secret ''WLAN_SSID'' (secrets_py w) = Inr (Some s)"
    and p: "dynamic_get_secret ''WLAN_PASSWORD'' (secrets_py w) = Inr pw"
    and sc: "r_scan (now w) = Inr found" and dec: "Undecodable \<notin> set found"
    and vis: "Decodable s \<in> set found"
    and co: "r_connect (radio w (Suc (length (radio_log w)))) = None"
    and no: "\<forall>j<30. \<not> reports_connected w (length (radio_log w) + 2 + 4 * j)"
  shows "\<exists>w'. connect_interface WLAN w = Inl (StopIteration, w') \<and>
     raised (connect_interface WLAN w) \<noteq> Some WLANConnectionError \<and>
     count_calls IsConnected w' = count_calls IsConnected w + 30 \<and>
     (\<forall>w0 mode. select_interface w0 = Inr ((WLAN, mode), w) \<longrightarrow>
        get_network_interface w0 = access_point_reset WLAN w')"
proof -
  from connect_interface_timeout [OF s p sc dec vis co no, of WLAN] obtain w' where
    con: "connect_interface WLAN w = Inl (StopIteration, w')"
    and cnt: "count_calls IsConnected w' = count_calls IsConnected w + 30"
    by (elim exE conjE)
  have r: "raised (connect_interface WLAN w) \<noteq> Some WLANConnectionError"
    by (simp add: con raised_def)
  have f: "\<forall>w0 mode. select_interface w0 = Inr ((WLAN, mode), w) \<longrightarrow>
        get_network_interface w0 = access_point_reset WLAN w'"
    by (simp add: get_network_interface_def con)
  from con r cnt f show ?thesis by (intro exI [of _ w'] conjI)
qed

theorem connect_interface_timeout_raises_witness:
  "\<exists>WLAN w5 w'.
     select_interface (fresh_world (Some home_store) home_radio) = Inr ((WLAN, STA_IF), w5) \<and>
     connect_interface WLAN w5 = Inl (StopIteration, w') \<and>
     count_calls IsConnected w' = count_calls IsConnected w5 + 30 \<and>
     get_network_interface (fresh_world (Some home_store) home_radio) = access_point_reset WLAN w'"
proof -
  let ?W = "fresh_world (Some home_store) home_radio"
  have vh: "value_of [''AP_SSID'' \<mapsto> Some ''PICO-W-E66161234567890B'',
      ''AP_PASSWORD'' \<mapsto> Some ''E66161234567890B'',
      ''WLAN_SSID'' \<mapsto> Some ''HomeNet'', ''WLAN_PASSWORD'' \<mapsto> Some ''secret'',
      ''MQTT_ENDPOINT'' \<mapsto> None, ''MQTT_CLIENT_ID'' \<mapsto> None] ''WLAN_SSID'' = Some ''HomeNet''"
    by (simp add: value_of_def normalised_def)
  from select_station [OF home_view vh fresh_world_id, of home_radio] obtain a p w5 m1 where
    sel: "select_interface ?W =
       Inr ((\<lparr>if_mode = STA_IF, cfg_ssid = Some a, cfg_password = Some p\<rparr>, STA_IF), w5)"
    and sv5: "store_view w5 m1" and vs: "value_of m1 ''WLAN_SSID'' = Some ''HomeNet''"
    and r5: "radio w5 = radio ?W"
    by (elim exE conjE)
  let ?sta = "\<lparr>if_mode = STA_IF, cfg_ssid = Some a, cfg_password = Some p\<rparr>"
  have rd: "radio w5 = home_radio" by (simp add: r5 fresh_world_def)
  have s: "dynamic_get_secret ''WLAN_SSID'' (secrets_py w5) = Inr (Some ''HomeNet'')"
    using get_view [OF sv5 store_key_names(1)] by (simp only: vs)
  have p: "dynamic_get_secret ''WLAN_PASSWORD'' (secrets_py w5) = Inr (value_of m1 ''WLAN_PASSWORD'')"
    by (rule get_view [OF sv5 store_key_names(2)])
  have sc: "r_scan (now w5) = Inr [Decodable ''HomeNet'']"
    by (simp add: now_def rd home_radio_def)
  have dec: "Undecodable \<notin> set [Decodable ''HomeNet'']" by simp
  have vis: "Decodable ''HomeNet'' \<in> set [Decodable ''HomeNet'']" by simp
  have co: "r_connect (radio w5 (Suc (length (radio_log w5)))) = None"
    by (simp add: rd home_radio_def quiet_def)
  have no: "\<forall>j<30. \<not> reports_connected w5 (length (radio_log w5) + 2 + 4 * j)"
    by (simp add: reports_connected_def rd home_radio_def quiet_def STAT_GOT_IP_def)
  from connect_interface_timeout_raises [OF s p sc dec vis co no, of ?sta] obtain w' where
    con: "connect_interface ?sta w5 = Inl (StopIteration, w')"
    and cnt: "count_calls IsConnected w' = count_calls IsConnected w5 + 30"
    and f: "\<forall>w0 mode. select_interface w0 = Inr ((?sta, mode), w5) \<longrightarrow>
        get_network_interface w0 = access_point_reset ?sta w'"
    by (elim exE conjE)
  from f [THEN spec, THEN spec, THEN mp, OF sel]
  have "get_network_interface ?W = access_point_reset ?sta w'" .
  with sel con cnt show ?thesis by (intro exI [of _ ?sta] exI [of _ w5] exI [of _ w'] conjI)
qed

text \<open>
  The claim as stated fails on the provisioned store with a radio that sees \<^verbatim>\<open>HomeNet\<close>
  and never reports a connection: \<open>connect_interface\<close> asks \<^verbatim>\<open>isconnected()\<close> 30 times
  and the exception it raises is \<open>StopIteration\<close>, which is not the connection error.
\<close>

theorem timeout_is_not_connection_error:
  "raised (connect_interface sta0 (fresh_world (Some home_store) home_radio)) = Some StopIteration \<and>
   raised (connect_interface sta0 (fresh_world (Some home_store) home_radio)) \<noteq>
     Some WLANConnectionError \<and>
   count_calls IsConnected
     (res_world (connect_interface sta0 (fresh_world (Some home_store) home_radio))) = 30"
proof -
  let ?W = "fresh_world (Some home_store) home_radio"
  have s: "dynamic_get_secret ''WLAN_SSID'' (secrets_py ?W) = Inr (Some ''HomeNet'')"
    and p: "dynamic_get_secret ''WLAN_PASSWORD'' (secrets_py ?W) = Inr (Some ''secret'')"
    by (simp_all add: get_view [OF home_view] store_key_names value_of_def normalised_def)
  have sc: "r_scan (now ?W) = Inr [Decodable ''HomeNet'']"
    by (simp add: now_def fresh_world_def home_radio_def)
  have dec: "Undecodable \<notin> set [Decodable ''HomeNet'']" by simp
  have vis: "Decodable ''HomeNet'' \<in> set [Decodable ''HomeNet'']" by simp
  have co: "r_connect (radio ?W (Suc (length (radio_log ?W)))) = None"
    by (simp add: fresh_world_def home_radio_def quiet_def)
  have no: "\<forall>j<30. \<not> reports_connected ?W (length (radio_log ?W) + 2 + 4 * j)"
    by (simp add: reports_connected_def fresh_world_def home_radio_def quiet_def STAT_GOT_IP_def)
  have z: "count_calls IsConnected ?W = 0" by (simp add: count_calls_def fresh_world_def)
  from connect_interface_timeout [OF s p sc dec vis co no, of sta0] obtain w' where
    con: "connect_interface sta0 ?W = Inl (StopIteration, w')"
    and cnt: "count_calls IsConnected w' = count_calls IsConnected ?W + 30"
    by (elim exE conjE)
  show ?thesis by (simp add: con raised_def res_world_def cnt z)
qed


text \<open>
  C3, at a store without a \<open>WLAN_SSID\<close> line. \<open>WLAN_SSID\<close> reads as none there, the
  station SSID is unset. \<open>get_network_interface\<close> clears it with
  \<^verbatim>\<open>dynamic_set_secret("WLAN_SSID", None)\<close>, whose append branch writes the line
  \<^verbatim>\<open>WLAN_SSID = 'None'\<close>; \<open>connect_interface\<close> then reads the string \<^verbatim>\<open>None\<close> as the SSID
  and scans for it. The call still returns an interface in AP mode, but one \<^verbatim>\<open>scan()\<close>
  is in the log and \<open>WLAN_SSID\<close> reads as the string \<^verbatim>\<open>None\<close> afterwards, not as none.
\<close>

theorem acquire_absent_ssid_scans:
  "dynamic_get_secret ''WLAN_SSID'' (Some ssidless_store) = Inr None \<and>
   (\<exists>WLAN w'. get_network_interface (fresh_world (Some ssidless_store) home_radio) =
        Inr ((WLAN, AP_IF), w') \<and>
      count_calls Scan w' = 1 \<and>
      dynamic_get_secret ''WLAN_SSID'' (secrets_py w') = Inr (Some ''None''))"
proof -
  let ?W = "fresh_world (Some ssidless_store) home_radio"
  let ?m = "[''AP_SSID'' \<mapsto> Some ''PICO-W-E66161234567890B'',
      ''AP_PASSWORD'' \<mapsto> Some ''E66161234567890B'',
      ''WLAN_PASSWORD'' \<mapsto> None, ''MQTT_ENDPOINT'' \<mapsto> None, ''MQTT_CLIENT_ID'' \<mapsto> None]"
  have ab: "''WLAN_SSID'' \<notin> dom ?m" by simp
  have before: "dynamic_get_secret ''WLAN_SSID'' (Some ssidless_store) = Inr None"
    using get_from_import [OF ssidless_store_import store_key_names(1)]
    by (simp add: normalised_def)
  have scan: "\<forall>i. \<exists>found. r_scan (radio ?W i) = Inr found \<and> Undecodable \<notin> set found \<and>
      Decodable ''None'' \<notin> set found"
    by (simp add: fresh_world_def home_radio_def)
  have z: "count_calls Scan ?W = 0" by (simp add: count_calls_def fresh_world_def)
  from acquire_absent_ssid [OF ssidless_view ab fresh_world_id scan] obtain a p w' m' where
    g: "get_network_interface ?W =
       Inr ((\<lparr>if_mode = AP_IF, cfg_ssid = Some a, cfg_password = Some p\<rparr>, AP_IF), w')"
    and sv': "store_view w' m'" and v: "value_of m' ''WLAN_SSID'' = Some ''None''"
    and c: "count_calls Scan w' = count_calls Scan ?W + 1"
    by (elim exE conjE)
  from c z have c1: "count_calls Scan w' = 1" by simp
  have r: "dynamic_get_secret ''WLAN_SSID'' (secrets_py w') = Inr (Some ''None'')"
    using get_view [OF sv' store_key_names(1)] by (simp only: v)
  from g c1 r have "\<exists>WLAN w'. get_network_interface ?W = Inr ((WLAN, AP_IF), w') \<and>
      count_calls Scan w' = 1 \<and>
      dynamic_get_secret ''WLAN_SSID'' (secrets_py w') = Inr (Some ''None'')"
    by (intro exI [of _ "\<lparr>if_mode = AP_IF, cfg_ssid = Some a, cfg_password = Some p\<rparr>"]
        exI [of _ w'] conjI)
  with before show ?thesis by (rule conjI)
qed

text \<open>
  C6, at the store before anything was written: no \<^verbatim>\<open>env/secrets.py\<close>. The first
  statement of \<open>get_network_interface\<close> is a \<open>dynamic_get_secret\<close>, which imports the file
  and so raises \<open>ImportError\<close>; nothing is returned, no call reaches the radio and no file
  is written. \<open>create_secrets\<close>, which writes the missing file, runs in
  \<open>dynamic_set_secret\<close> only: a write on the same state creates the file with its six keys.
\<close>

theorem acquire_without_file_raises:
  "get_network_interface (fresh_world None home_radio) =
     Inl (ImportError, fresh_world None home_radio) \<and>
   dynamic_get_secret ''AP_SSID'' None = Inl ImportError \<and>
   dynamic_set_secret ''AP_SSID'' None None = (False, Some baseline)"
proof -
  have g: "dynamic_get_secret ''WLAN_SSID'' None = Inl ImportError"
    "dynamic_get_secret ''AP_SSID'' None = Inl ImportError"
    by (simp_all add: dynamic_get_secret_def import_secrets_def)
  have "get_network_interface (fresh_world None home_radio) =
     Inl (ImportError, fresh_world None home_radio)"
    by (simp add: get_network_interface_def select_interface_def fresh_world_def g(1))
  moreover have "dynamic_set_secret ''AP_SSID'' None None = (False, Some baseline)"
    by (simp add: set_eval)
  ultimately show ?thesis using g(2) by (intro conjI)
qed

text \<open>
  C9, at the provisioned store with a neighbouring network whose SSID is no valid UTF-8.
  \<^verbatim>\<open>HomeNet\<close> is stored and is not in the scan result. \<open>connect_interface\<close> decodes every
  scanned name, \<^verbatim>\<open>decode()\<close> raises \<open>UnicodeError\<close>, which neither handler of
  \<open>connect_interface\<close> nor of \<open>get_network_interface\<close> catches: \<open>get_network_interface\<close>
  raises \<open>UnicodeError\<close>, returns no interface, and the log holds no \<^verbatim>\<open>deinit()\<close>, that
  is, \<open>access_point_reset\<close> did not run.
\<close>

theorem acquire_garbled_scan_raises:
  "dynamic_get_secret ''WLAN_SSID'' (Some home_store) = Inr (Some ''HomeNet'') \<and>
   raised (get_network_interface (fresh_world (Some home_store) garbled_radio)) =
     Some UnicodeError \<and>
   count_calls Deinit
     (res_world (get_network_interface (fresh_world (Some home_store) garbled_radio))) = 0"
proof -
  let ?W = "fresh_world (Some home_store) garbled_radio"
  have vh: "value_of [''AP_SSID'' \<mapsto> Some ''PICO-W-E66161234567890B'',
      ''AP_PASSWORD'' \<mapsto> Some ''E66161234567890B'',
      ''WLAN_SSID'' \<mapsto> Some ''HomeNet'', ''WLAN_PASSWORD'' \<mapsto> Some ''secret'',
      ''MQTT_ENDPOINT'' \<mapsto> None, ''MQTT_CLIENT_ID'' \<mapsto> None] ''WLAN_SSID'' = Some ''HomeNet''"
    by (simp add: value_of_def normalised_def)
  have before: "dynamic_get_secret ''WLAN_SSID'' (Some home_store) = Inr (Some ''HomeNet'')"
    using get_from_import [OF home_store_import store_key_names(1)]
    by (simp add: normalised_def)
  have scan: "\<forall>i. \<exists>found. r_scan (radio ?W i) = Inr found \<and> Undecodable \<in> set found"
    by (simp add: fresh_world_def garbled_radio_def)
  have z: "count_calls Deinit ?W = 0" by (simp add: count_calls_def fresh_world_def)
  from acquire_garbled [OF home_view vh fresh_world_id scan] obtain a p w5 where
    g: "get_network_interface ?W =
       Inl (UnicodeError, call \<lparr>if_mode = STA_IF, cfg_ssid = Some a, cfg_password = Some p\<rparr> Scan w5)"
    and d: "count_calls Deinit w5 = count_calls Deinit ?W"
    by (elim exE conjE)
  have "raised (get_network_interface ?W) = Some UnicodeError" by (simp add: g raised_def)
  moreover have "count_calls Deinit (res_world (get_network_interface ?W)) = 0"
    by (simp add: g res_world_def d z)
  ultimately show ?thesis using before by (intro conjI)
qed

text \<open>
  C10, at a password with a quote in it. The handler writes the password first, as the
  line \<^verbatim>\<open>WLAN_PASSWORD = 'it's'\<close>: \<open>dynamic_set_secret\<close> puts the value between quotes as it
  is. The file no longer imports, so after the request \<open>WLAN_PASSWORD\<close> does not read as
  the submitted value: reading it raises \<open>SyntaxError\<close> (and so does reading any other
  key), whether the request is answered 205 (with an SSID) or 400 (with an empty one).
\<close>

theorem set_connection_quote_password:
  "status_code (fst (set_connection quote_form (Some home_store))) = 205 \<and>
   dynamic_get_secret ''WLAN_PASSWORD'' (snd (set_connection quote_form (Some home_store))) =
     Inl SyntaxError \<and>
   status_code (fst (set_connection quote_form_empty_ssid (Some home_store))) = 400 \<and>
   dynamic_get_secret ''WLAN_PASSWORD''
     (snd (set_connection quote_form_empty_ssid (Some home_store))) = Inl SyntaxError"
  by (simp add: set_connection_def quote_form_def quote_form_empty_ssid_def home_store_def set_eval)

end
